theory Spec2Isabelle
  imports Main
begin

section \<open>Values, records and errors\<close>

text \<open>
  The facade of \<^verbatim>\<open>src/Hawiah.ts\<close> works on untyped JavaScript values (\<^verbatim>\<open>any\<close>): the
  configuration of a driver, the records (\<^verbatim>\<open>Data\<close>) and the filters (\<^verbatim>\<open>Query\<close>) are objects
  whose fields hold such values. An object is an association list in the enumeration order of
  its keys, which are distinct. Numbers are the integer-valued ones.
\<close>

datatype error =
    NotConnected
  | RelationNotDefined string
  | RecordNotFound
  | TypeError
  | ValidationError string
  | DriverError string

datatype jsval =
    Undefined
  | Null
  | Bool bool
  | Num int
  | Str string
  | Arr "jsval list"
  | Rec "(string \<times> jsval) list"
  | ErrorObj error

type_synonym data = "(string \<times> jsval) list"

text \<open>\<^verbatim>\<open>obj[key]\<close>: the value of a field, \<^verbatim>\<open>undefined\<close> when the object has no such field.\<close>

definition field :: "data \<Rightarrow> string \<Rightarrow> jsval" where
  "field obj k = (case map_of obj k of None \<Rightarrow> Undefined | Some v \<Rightarrow> v)"

text \<open>The truth value JavaScript gives a value in a condition (\<^verbatim>\<open>if (v)\<close>, \<^verbatim>\<open>a || b\<close>).\<close>

fun truthy :: "jsval \<Rightarrow> bool" where
  "truthy Undefined = False"
| "truthy Null = False"
| "truthy (Bool b) = b"
| "truthy (Num n) = (n \<noteq> 0)"
| "truthy (Str s) = (s \<noteq> [])"
| "truthy (Arr xs) = True"
| "truthy (Rec fs) = True"
| "truthy (ErrorObj e) = True"

text \<open>\<^verbatim>\<open>typeof v === 'object'\<close>, which holds of \<^verbatim>\<open>null\<close> too.\<close>

fun typeof_object :: "jsval \<Rightarrow> bool" where
  "typeof_object Null = True"
| "typeof_object (Arr xs) = True"
| "typeof_object (Rec fs) = True"
| "typeof_object (ErrorObj e) = True"
| "typeof_object v = False"

text \<open>\<^verbatim>\<open>v != null\<close>, the loose comparison: false of \<^verbatim>\<open>null\<close> and of \<^verbatim>\<open>undefined\<close>.\<close>

fun not_nullish :: "jsval \<Rightarrow> bool" where
  "not_nullish Undefined = False"
| "not_nullish Null = False"
| "not_nullish v = True"

text \<open>
  The decimal numeral of an integer, as a template literal prints a number of magnitude below
  \<^verbatim>\<open>1e21\<close>. The numbers of the model are the integers; JavaScript prints a number of that
  magnitude or more in exponent form (\<^verbatim>\<open>1e+21\<close>), which \<open>show_int\<close> does not follow, and a
  number with a fraction is not a value of the model. The statements about the fingerprint that
  are proved for all configurations do not depend on how a number is printed; the examples
  use small numbers.
\<close>

fun digits :: "nat \<Rightarrow> string" where
  "digits n = (if n < 10 then [''0123456789'' ! n]
               else digits (n div 10) @ [''0123456789'' ! (n mod 10)])"

declare digits.simps [simp del]

definition show_int :: "int \<Rightarrow> string" where
  "show_int i = (if i < 0 then CHR ''-'' # digits (nat (- i)) else digits (nat i))"

text \<open>
  \<^verbatim>\<open>`${v}`\<close> for the values that are not objects. The fingerprint applies it to those only;
  the remaining equations make the function total.
\<close>

fun template_str :: "jsval \<Rightarrow> string" where
  "template_str Undefined = ''undefined''"
| "template_str (Bool b) = (if b then ''true'' else ''false'')"
| "template_str (Num n) = show_int n"
| "template_str (Str s) = s"
| "template_str Null = ''null''"
| "template_str v = ''[object Object]''"

section \<open>The fingerprint: \<^verbatim>\<open>Hawiah.getPoolKey\<close>\<close>

text \<open>
  The first argument of \<^verbatim>\<open>getPoolKey\<close> is a driver class or a driver object. Of a class the
  function reads \<^verbatim>\<open>name\<close> and whether \<^verbatim>\<open>prototype.table\<close> is a function; of an object it reads
  \<^verbatim>\<open>constructor\<close> (which an object may lack), the same two things of that constructor, and
  whether \<^verbatim>\<open>driver.table\<close> is a function.
\<close>

datatype driver_arg =
    DriverClass string bool
  | DriverObject "(string \<times> bool) option" bool

definition IGNORE_KEYS :: "string list" where
  "IGNORE_KEYS = [''collectionName'', ''tableName'', ''collection'', ''table'', ''connectionKey'']"

text \<open>
  \<^verbatim>\<open>typeof driver === 'function' ? driver.name : (driver.constructor?.name || 'UnknownDriver')\<close>
\<close>

fun driver_name :: "driver_arg \<Rightarrow> string" where
  "driver_name (DriverClass n pt) = n"
| "driver_name (DriverObject None ot) = ''UnknownDriver''"
| "driver_name (DriverObject (Some (n, pt)) ot) = (if n \<noteq> [] then n else ''UnknownDriver'')"

text \<open>
  \<^verbatim>\<open>supportsTable\<close>. For an object without a constructor \<^verbatim>\<open>driverClass\<close> is \<^verbatim>\<open>undefined\<close>
  and reading \<^verbatim>\<open>driverClass.prototype\<close> throws: the result is \<open>None\<close>.
\<close>

fun supportsTable :: "driver_arg \<Rightarrow> bool option" where
  "supportsTable (DriverClass n pt) = Some pt"
| "supportsTable (DriverObject None ot) = None"
| "supportsTable (DriverObject (Some (n, pt)) ot) = Some (pt \<or> ot)"

definition ignoreKeys :: "bool \<Rightarrow> string list" where
  "ignoreKeys st =
     (if st then IGNORE_KEYS
      else filter (\<lambda>k. k \<notin> set [''collectionName'', ''tableName'', ''collection'', ''table''])
             IGNORE_KEYS)"

text \<open>
  What one configuration entry appends to the key. \<^verbatim>\<open>JSON.stringify\<close> is the parameter
  \<open>stringify\<close>.
\<close>

definition key_segment :: "(jsval \<Rightarrow> string) \<Rightarrow> string \<Rightarrow> jsval \<Rightarrow> string" where
  "key_segment stringify k val =
     (if val \<noteq> Null \<and> \<not> typeof_object val then ''|'' @ k @ '':'' @ template_str val
      else if val \<noteq> Null then ''|'' @ k @ '':'' @ stringify val
      else [])"

definition key_step :: "(jsval \<Rightarrow> string) \<Rightarrow> string list \<Rightarrow> string \<times> jsval \<Rightarrow> string \<Rightarrow> string" where
  "key_step stringify ign kv cKey =
     (if fst kv \<notin> set ign then cKey @ key_segment stringify (fst kv) (snd kv) else cKey)"

text \<open>
  The result is the override \<^verbatim>\<open>config.connectionKey\<close> itself when that is truthy, whatever
  value it is, and a string otherwise.
\<close>

definition getPoolKey :: "(jsval \<Rightarrow> string) \<Rightarrow> driver_arg \<Rightarrow> data \<Rightarrow> error + jsval" where
  "getPoolKey stringify driver config =
     (let cKey = field config ''connectionKey'' in
      if truthy cKey then Inr cKey
      else
        case supportsTable driver of
          None \<Rightarrow> Inl TypeError
        | Some st \<Rightarrow>
            Inr (Str (fold (key_step stringify (ignoreKeys st)) config (driver_name driver))))"

text \<open>The entries of a configuration outside the fixed exclusion set, in their order.\<close>

definition relevant :: "data \<Rightarrow> data" where
  "relevant config = filter (\<lambda>kv. fst kv \<notin> set IGNORE_KEYS) config"

text \<open>The keys that name the sub-resource.\<close>

definition subresource_keys :: "string list" where
  "subresource_keys = [''collectionName'', ''tableName'', ''collection'', ''table'']"

text \<open>
  A stand-in for \<^verbatim>\<open>JSON.stringify\<close> in the examples, whose configurations hold no objects.
\<close>

definition demo_stringify :: "jsval \<Rightarrow> string" where
  "demo_stringify v = ''{}''"

section \<open>The connection coordinator: \<^verbatim>\<open>connect\<close> and \<^verbatim>\<open>disconnect\<close>\<close>

text \<open>
  \<^verbatim>\<open>connect\<close> and \<^verbatim>\<open>disconnect\<close> are \<^verbatim>\<open>async\<close>: a call runs until its \<^verbatim>\<open>await\<close>, the
  calls of other instances run in between, and the call continues once the awaited promise is
  settled. The state of the process holds the facade instances, the two static maps of the
  class, the promises made by \<^verbatim>\<open>connect\<close>, what the facade can see of each driver object, and the
  trace of the operations invoked on the drivers. The constructor, which fills \<^verbatim>\<open>driversPool\<close>
  and sets \<^verbatim>\<open>connectionKey\<close>, is not modelled: a state holds the instances as they are once
  constructed.
\<close>

text \<open>The key of \<^verbatim>\<open>connectionPromises\<close>: \<^verbatim>\<open>this.connectionKey || this.driver\<close>.\<close>

datatype pkey = ByKey jsval | ByDriver nat

datatype promise = Pending | Fulfilled | Rejected error

text \<open>Where the \<^verbatim>\<open>connect\<close> call of an instance stands.\<close>

datatype phase = Idle | Awaiting nat | Returned | Threw error

fun awaiting :: "phase \<Rightarrow> bool" where
  "awaiting (Awaiting p) = True"
| "awaiting ph = False"

text \<open>
  An operation invoked on a driver object: the driver and the arguments. The trace of a process
  lists them in the order of invocation.
\<close>

datatype drv_call =
    Connect nat
  | Disconnect nat
  | DSet nat data
  | DGet nat data
  | DGetOne nat data
  | DUpdate nat data data
  | DDelete nat data
  | DExists nat data
  | DCount nat data


text \<open>
  \<^verbatim>\<open>RelationConfig\<close>: the target is a facade instance, named by its index in the process.
\<close>

datatype rel_type = One | Many

record relation =
  target :: nat
  localKey :: string
  foreignKey :: string
  rtype :: rel_type

text \<open>
  A \<^verbatim>\<open>DataLoader\<close> made by \<^verbatim>\<open>loadRelation\<close>: the target, foreign key and cardinality its
  batch function has captured, and its cache, the keys loaded so far with their values.
\<close>

record loader =
  l_target :: nat
  l_foreignKey :: string
  l_type :: rel_type
  cache :: "(jsval \<times> jsval) list"

text \<open>
  The fields of a \<^verbatim>\<open>Hawiah\<close> object, and \<open>phase\<close>. A driver object and a schema object are
  named by a number.
\<close>

record hawiah =
  driver :: nat
  isConnected :: bool
  relations :: "(string \<times> relation) list"
  loaders :: "(string \<times> loader) list"
  schema :: "nat option"
  connectionKey :: jsval
  phase :: phase

text \<open>
  \<open>has_isConnected d\<close>: the driver object \<open>d\<close> has the optional method \<^verbatim>\<open>isConnected\<close>;
  \<open>live d\<close>: what that method answers. \<open>promises\<close> holds, for each promise made by
  \<^verbatim>\<open>connect\<close>, its state and the driver whose \<^verbatim>\<open>connect()\<close> it awaits. \<open>backend\<close> is the
  state behind the drivers, of a type the facade knows nothing about. \<open>fetches\<close> lists the
  calls of the batch functions of the loaders, each with the target instance it reads and the
  keys it was given.
\<close>

record 'b sys =
  instances :: "hawiah list"
  driversPool :: "jsval \<rightharpoonup> nat"
  connectionPromises :: "pkey \<rightharpoonup> nat"
  promises :: "(promise \<times> nat) list"
  has_isConnected :: "nat \<Rightarrow> bool"
  live :: "nat \<Rightarrow> bool"
  backend :: "'b"
  trace :: "drv_call list"
  fetches :: "(nat \<times> jsval list) list"

definition poolKey :: "hawiah \<Rightarrow> pkey" where
  "poolKey inst =
     (if truthy (connectionKey inst) then ByKey (connectionKey inst) else ByDriver (driver inst))"

text \<open>
  \<^verbatim>\<open>connect()\<close> of instance \<open>i\<close> from its entry to its first \<^verbatim>\<open>await\<close> or \<^verbatim>\<open>return\<close>. The
  \<^verbatim>\<open>async\<close> function expression is called at once, so \<^verbatim>\<open>this.driver.connect()\<close> is invoked
  here, before the promise is stored.
\<close>

definition connect_enter :: "nat \<Rightarrow> 'b sys \<Rightarrow> 'b sys" where
  "connect_enter i s =
     (let inst = instances s ! i in
      if isConnected inst then s\<lparr>instances := (instances s)[i := inst\<lparr>phase := Returned\<rparr>]\<rparr>
      else
        case connectionPromises s (poolKey inst) of
          Some p \<Rightarrow> s\<lparr>instances := (instances s)[i := inst\<lparr>phase := Awaiting p\<rparr>]\<rparr>
        | None \<Rightarrow>
            if has_isConnected s (driver inst) \<and> live s (driver inst)
            then s\<lparr>instances := (instances s)[i := inst\<lparr>isConnected := True, phase := Returned\<rparr>]\<rparr>
            else
              let p = length (promises s) in
              s\<lparr>instances := (instances s)[i := inst\<lparr>phase := Awaiting p\<rparr>],
                connectionPromises := (connectionPromises s)(poolKey inst \<mapsto> p),
                promises := promises s @ [(Pending, driver inst)],
                trace := trace s @ [Connect (driver inst)]\<rparr>)"

text \<open>
  The driver's \<^verbatim>\<open>connect()\<close> behind promise \<open>p\<close> completes, with success (\<open>None\<close>) or with
  an error; the promise of the \<^verbatim>\<open>async\<close> function expression settles the same way. A driver
  that has connected answers \<^verbatim>\<open>isConnected()\<close> with true.
\<close>

definition settle :: "nat \<Rightarrow> error option \<Rightarrow> 'b sys \<Rightarrow> 'b sys" where
  "settle p r s =
     (if p < length (promises s) \<and> fst (promises s ! p) = Pending then
        (case r of
           None \<Rightarrow> s\<lparr>promises := (promises s)[p := (Fulfilled, snd (promises s ! p))],
                      live := (live s)(snd (promises s ! p) := True)\<rparr>
         | Some e \<Rightarrow> s\<lparr>promises := (promises s)[p := (Rejected e, snd (promises s ! p))]\<rparr>)
      else s)"

text \<open>\<^verbatim>\<open>await connectionPromise; this.isConnected = true;\<close> once the promise is settled.\<close>

definition connect_resume :: "nat \<Rightarrow> 'b sys \<Rightarrow> 'b sys" where
  "connect_resume i s =
     (let inst = instances s ! i in
      case phase inst of
        Awaiting p \<Rightarrow>
          (case fst (promises s ! p) of
             Pending \<Rightarrow> s
           | Fulfilled \<Rightarrow>
               s\<lparr>instances := (instances s)[i := inst\<lparr>isConnected := True, phase := Returned\<rparr>]\<rparr>
           | Rejected e \<Rightarrow> s\<lparr>instances := (instances s)[i := inst\<lparr>phase := Threw e\<rparr>]\<rparr>)
      | _ \<Rightarrow> s)"

text \<open>
  What can happen next: instance \<open>i\<close> calls \<^verbatim>\<open>connect()\<close> (it has no call in flight), a
  driver completes a connect, or the awaiting call of instance \<open>i\<close> continues. An event that
  cannot happen in a state leaves it as it is.
\<close>

datatype event = Call nat | Settle nat "error option" | Resume nat

fun step :: "event \<Rightarrow> 'b sys \<Rightarrow> 'b sys" where
  "step (Call i) s =
     (if i < length (instances s) \<and> \<not> awaiting (phase (instances s ! i))
      then connect_enter i s else s)"
| "step (Settle p r) s = settle p r s"
| "step (Resume i) s = (if i < length (instances s) then connect_resume i s else s)"

definition exec :: "event list \<Rightarrow> 'b sys \<Rightarrow> 'b sys" where
  "exec evs s = fold step evs s"


text \<open>
  \<^verbatim>\<open>disconnect()\<close> of instance \<open>i\<close>; \<open>r\<close> is how the driver's \<^verbatim>\<open>disconnect()\<close> completes.
  When it fails the error passes to the caller and the flag is not cleared.
\<close>

definition disconnect :: "nat \<Rightarrow> error option \<Rightarrow> 'b sys \<Rightarrow> (error + unit) \<times> 'b sys" where
  "disconnect i r s =
     (let inst = instances s ! i in
      if \<not> isConnected inst then (Inr (), s)
      else
        let s1 = s\<lparr>trace := trace s @ [Disconnect (driver inst)]\<rparr> in
        case r of
          Some e \<Rightarrow> (Inl e, s1)
        | None \<Rightarrow>
            (Inr (), s1\<lparr>instances := (instances s1)[i := inst\<lparr>isConnected := False\<rparr>],
                        live := (live s1)(driver inst := False)\<rparr>))"



text \<open>
  The schedule that lets every one of \<open>n\<close> instances call \<^verbatim>\<open>connect()\<close>, lets the driver
  complete the connect behind the first promise with \<open>r\<close>, and lets every call continue.
\<close>

definition drain :: "error option \<Rightarrow> nat \<Rightarrow> event list" where
  "drain r n = map Call [0..<n] @ [Settle 0 r] @ map Resume [0..<n]"






text \<open>
  Three instances made from one driver class and one configuration, each with a driver handle
  of its own, in a process where nothing has been connected.
\<close>

definition demo_inst :: "nat \<Rightarrow> hawiah" where
  "demo_inst d = \<lparr>driver = d, isConnected = False, relations = [], loaders = [], schema = None,
     connectionKey = Str ''MongoDriver|uri:db'', phase = Idle\<rparr>"

definition demo_sys :: "unit sys" where
  "demo_sys = \<lparr>instances = [demo_inst 0, demo_inst 1, demo_inst 2],
     driversPool = [Str ''MongoDriver|uri:db'' \<mapsto> 0],
     connectionPromises = Map.empty, promises = [],
     has_isConnected = (\<lambda>d. True), live = (\<lambda>d. False), backend = (), trace = [],
     fetches = []\<rparr>"




section \<open>The operations of the facade\<close>

subsection \<open>Objects, arrays and maps\<close>

text \<open>
  \<^verbatim>\<open>obj[k] = v\<close> and \<^verbatim>\<open>map.set(k, v)\<close>: a key that is there keeps its place, a new key goes to the
  end.
\<close>

fun alist_set :: "'k \<Rightarrow> 'v \<Rightarrow> ('k \<times> 'v) list \<Rightarrow> ('k \<times> 'v) list" where
  "alist_set k v [] = [(k, v)]"
| "alist_set k v (kv # kvs) = (if fst kv = k then (k, v) # kvs else kv # alist_set k v kvs)"

definition set_field :: "string \<Rightarrow> jsval \<Rightarrow> data \<Rightarrow> data" where
  "set_field k v obj = alist_set k v obj"

text \<open>
  \<^verbatim>\<open>delete obj[k]\<close> and \<^verbatim>\<open>k in obj\<close>. An object of the model has its own fields only:
  \<^verbatim>\<open>k in obj\<close> is also true in JavaScript of the names an object inherits from
  \<^verbatim>\<open>Object.prototype\<close> (\<^verbatim>\<open>toString\<close>, \<^verbatim>\<open>constructor\<close> and the like), and \<open>has_field\<close> is false of
  them unless the object has a field of that name. It is used by \<^verbatim>\<open>unset\<close>, \<^verbatim>\<open>rename\<close> and
  \<^verbatim>\<open>select\<close>, whose results for such names are outside the model.
\<close>

definition del_field :: "string \<Rightarrow> data \<Rightarrow> data" where
  "del_field k obj = filter (\<lambda>kv. fst kv \<noteq> k) obj"

definition has_field :: "data \<Rightarrow> string \<Rightarrow> bool" where
  "has_field obj k = (map_of obj k \<noteq> None)"

text \<open>\<^verbatim>\<open>{ ...a, ...b }\<close>\<close>

definition spread :: "data \<Rightarrow> data \<Rightarrow> data" where
  "spread a b = fold (\<lambda>kv acc. set_field (fst kv) (snd kv) acc) b a"

text \<open>\<^verbatim>\<open>xs.slice(start, end)\<close> for integers.\<close>

definition js_slice :: "int \<Rightarrow> int \<Rightarrow> 'a list \<Rightarrow> 'a list" where
  "js_slice start stop xs =
     (let len = int (length xs);
          k = (if start < 0 then max (len + start) 0 else min start len);
          final = (if stop < 0 then max (len + stop) 0 else min stop len)
      in take (nat (final - k)) (drop (nat k) xs))"

text \<open>
  The comparison of \<^verbatim>\<open>Array.prototype.includes\<close>, of the keys of a \<^verbatim>\<open>Map\<close> and of the members of
  a \<^verbatim>\<open>Set\<close>: values that are not objects are the same when they are equal; two objects are
  the same when they are one object, and the objects met here (fields of different records)
  never are.
\<close>

definition sameValueZero :: "jsval \<Rightarrow> jsval \<Rightarrow> bool" where
  "sameValueZero a b \<longleftrightarrow> a = b \<and> (a = Null \<or> \<not> typeof_object a)"

text \<open>\<^verbatim>\<open>[...new Set(values)]\<close>\<close>

fun js_unique :: "jsval list \<Rightarrow> jsval list \<Rightarrow> jsval list" where
  "js_unique seen [] = seen"
| "js_unique seen (v # vs) =
     (if list_ex (\<lambda>u. sameValueZero u v) seen then js_unique seen vs
      else js_unique (seen @ [v]) vs)"

subsection \<open>Asynchronous operations\<close>

text \<open>
  The environment of the facade: the operations of the driver objects, which act on the backend
  and may fail; \<^verbatim>\<open>driver.dbType\<close>; \<^verbatim>\<open>schema.validate\<close>, which throws on invalid data; and the
  conversions, the comparison and the random order of JavaScript that some operations apply to
  what a driver has answered (\<^verbatim>\<open>JSON.stringify(v)\<close>, \<^verbatim>\<open>Number(v) || 0\<close>,
  \<^verbatim>\<open>Math.ceil(total / pageSize)\<close>, the \<^verbatim>\<open>sort\<close> call of \<^verbatim>\<open>sort\<close> with the field and the direction,
  the \<^verbatim>\<open>reduce\<close> call of \<^verbatim>\<open>group\<close> with the field, the \<^verbatim>\<open>sort\<close> call of \<^verbatim>\<open>random\<close>).
\<close>

record 'b env =
  d_set :: "nat \<Rightarrow> data \<Rightarrow> 'b \<Rightarrow> (error + data) \<times> 'b"
  d_get :: "nat \<Rightarrow> data \<Rightarrow> 'b \<Rightarrow> (error + data list) \<times> 'b"
  d_getOne :: "nat \<Rightarrow> data \<Rightarrow> 'b \<Rightarrow> (error + data option) \<times> 'b"
  d_update :: "nat \<Rightarrow> data \<Rightarrow> data \<Rightarrow> 'b \<Rightarrow> (error + int) \<times> 'b"
  d_delete :: "nat \<Rightarrow> data \<Rightarrow> 'b \<Rightarrow> (error + int) \<times> 'b"
  d_exists :: "nat \<Rightarrow> data \<Rightarrow> 'b \<Rightarrow> (error + bool) \<times> 'b"
  d_count :: "nat \<Rightarrow> data \<Rightarrow> 'b \<Rightarrow> (error + int) \<times> 'b"
  dbType :: "nat \<Rightarrow> jsval"
  validate :: "nat \<Rightarrow> data \<Rightarrow> bool \<Rightarrow> error + data"
  js_stringify :: "jsval \<Rightarrow> string"
  js_number :: "jsval \<Rightarrow> int"
  js_ceil_div :: "int \<Rightarrow> int \<Rightarrow> jsval"
  js_sort :: "string \<Rightarrow> string \<Rightarrow> data list \<Rightarrow> data list"
  js_group :: "string \<Rightarrow> data list \<Rightarrow> data"
  js_random_sort :: "data list \<Rightarrow> data list"

text \<open>
  An operation of the facade takes the process from one state to the next and returns a value
  or throws. The calls of other instances that may run while it awaits a driver are not
  modelled here.
\<close>

type_synonym ('b, 'a) act = "'b sys \<Rightarrow> (error + 'a) \<times> 'b sys"

definition ret :: "'a \<Rightarrow> ('b, 'a) act" where
  "ret a s = (Inr a, s)"

definition throw :: "error \<Rightarrow> ('b, 'a) act" where
  "throw e s = (Inl e, s)"

definition andThen :: "('b, 'a) act \<Rightarrow> ('a \<Rightarrow> ('b, 'c) act) \<Rightarrow> ('b, 'c) act" where
  "andThen m f s = (case m s of (Inl e, s') \<Rightarrow> (Inl e, s') | (Inr a, s') \<Rightarrow> f a s')"

text \<open>\<^verbatim>\<open>this.driver\<close>\<close>

definition this_driver :: "nat \<Rightarrow> 'b sys \<Rightarrow> nat" where
  "this_driver this s = driver (instances s ! this)"

text \<open>The calls of the driver's methods: the call joins the trace and acts on the backend.\<close>

definition drv_set :: "'b env \<Rightarrow> nat \<Rightarrow> data \<Rightarrow> ('b, data) act" where
  "drv_set env this dat s =
     (let d = this_driver this s; (r, b) = d_set env d dat (backend s)
      in (r, s\<lparr>backend := b, trace := trace s @ [DSet d dat]\<rparr>))"

definition drv_get :: "'b env \<Rightarrow> nat \<Rightarrow> data \<Rightarrow> ('b, data list) act" where
  "drv_get env this query s =
     (let d = this_driver this s; (r, b) = d_get env d query (backend s)
      in (r, s\<lparr>backend := b, trace := trace s @ [DGet d query]\<rparr>))"

definition drv_getOne :: "'b env \<Rightarrow> nat \<Rightarrow> data \<Rightarrow> ('b, data option) act" where
  "drv_getOne env this query s =
     (let d = this_driver this s; (r, b) = d_getOne env d query (backend s)
      in (r, s\<lparr>backend := b, trace := trace s @ [DGetOne d query]\<rparr>))"

definition drv_update :: "'b env \<Rightarrow> nat \<Rightarrow> data \<Rightarrow> data \<Rightarrow> ('b, int) act" where
  "drv_update env this query dat s =
     (let d = this_driver this s; (r, b) = d_update env d query dat (backend s)
      in (r, s\<lparr>backend := b, trace := trace s @ [DUpdate d query dat]\<rparr>))"

definition drv_delete :: "'b env \<Rightarrow> nat \<Rightarrow> data \<Rightarrow> ('b, int) act" where
  "drv_delete env this query s =
     (let d = this_driver this s; (r, b) = d_delete env d query (backend s)
      in (r, s\<lparr>backend := b, trace := trace s @ [DDelete d query]\<rparr>))"

definition drv_exists :: "'b env \<Rightarrow> nat \<Rightarrow> data \<Rightarrow> ('b, bool) act" where
  "drv_exists env this query s =
     (let d = this_driver this s; (r, b) = d_exists env d query (backend s)
      in (r, s\<lparr>backend := b, trace := trace s @ [DExists d query]\<rparr>))"

definition drv_count :: "'b env \<Rightarrow> nat \<Rightarrow> data \<Rightarrow> ('b, int) act" where
  "drv_count env this query s =
     (let d = this_driver this s; (r, b) = d_count env d query (backend s)
      in (r, s\<lparr>backend := b, trace := trace s @ [DCount d query]\<rparr>))"

definition ensureConnected :: "nat \<Rightarrow> ('b, unit) act" where
  "ensureConnected this s =
     (if \<not> isConnected (instances s ! this) then throw NotConnected s else ret () s)"

definition validateData :: "'b env \<Rightarrow> nat \<Rightarrow> data \<Rightarrow> bool \<Rightarrow> ('b, data) act" where
  "validateData env this dat isPartial s =
     (case schema (instances s ! this) of
        Some sch \<Rightarrow>
          if dbType env (this_driver this s) \<noteq> Str ''sql''
          then (validate env sch dat isPartial, s)
          else ret dat s
      | None \<Rightarrow> ret dat s)"

subsection \<open>Create, read, update, delete\<close>

definition insert_rec :: "'b env \<Rightarrow> nat \<Rightarrow> data \<Rightarrow> ('b, data) act" where
  "insert_rec env this dat =
     andThen (ensureConnected this) (\<lambda>_.
     andThen (validateData env this dat False) (\<lambda>validated.
     drv_set env this validated))"

fun insertMany_loop :: "'b env \<Rightarrow> nat \<Rightarrow> data list \<Rightarrow> data list \<Rightarrow> ('b, data list) act" where
  "insertMany_loop env this [] results = ret results"
| "insertMany_loop env this (dat # rest) results =
     andThen (validateData env this dat False) (\<lambda>validated.
     andThen (drv_set env this validated) (\<lambda>result.
     insertMany_loop env this rest (results @ [result])))"

definition insertMany :: "'b env \<Rightarrow> nat \<Rightarrow> data list \<Rightarrow> ('b, data list) act" where
  "insertMany env this dataArray =
     andThen (ensureConnected this) (\<lambda>_. insertMany_loop env this dataArray [])"

text \<open>\<^verbatim>\<open>get(query, limit)\<close>; \<open>None\<close> is the absent limit.\<close>

definition get :: "'b env \<Rightarrow> nat \<Rightarrow> data \<Rightarrow> int option \<Rightarrow> ('b, data list) act" where
  "get env this query limit =
     andThen (ensureConnected this) (\<lambda>_.
     andThen (drv_get env this query) (\<lambda>results.
     case limit of
       Some n \<Rightarrow> if n \<noteq> 0 \<and> n > 0 then ret (js_slice 0 n results) else ret results
     | None \<Rightarrow> ret results))"

definition getOne :: "'b env \<Rightarrow> nat \<Rightarrow> data \<Rightarrow> ('b, data option) act" where
  "getOne env this query =
     andThen (ensureConnected this) (\<lambda>_. drv_getOne env this query)"

definition getAll :: "'b env \<Rightarrow> nat \<Rightarrow> ('b, data list) act" where
  "getAll env this =
     andThen (ensureConnected this) (\<lambda>_. drv_get env this [])"

fun getMany_loop :: "'b env \<Rightarrow> nat \<Rightarrow> data list \<Rightarrow> data list \<Rightarrow> ('b, data list) act" where
  "getMany_loop env this [] results = ret results"
| "getMany_loop env this (query # rest) results =
     andThen (drv_get env this query) (\<lambda>dat. getMany_loop env this rest (results @ dat))"

definition getMany :: "'b env \<Rightarrow> nat \<Rightarrow> data list \<Rightarrow> ('b, data list) act" where
  "getMany env this queries =
     andThen (ensureConnected this) (\<lambda>_. getMany_loop env this queries [])"

definition update :: "'b env \<Rightarrow> nat \<Rightarrow> data \<Rightarrow> data \<Rightarrow> ('b, int) act" where
  "update env this query dat =
     andThen (ensureConnected this) (\<lambda>_.
     andThen (validateData env this dat True) (\<lambda>validated.
     drv_update env this query validated))"

definition updateOne :: "'b env \<Rightarrow> nat \<Rightarrow> data \<Rightarrow> data \<Rightarrow> ('b, bool) act" where
  "updateOne env this query dat =
     andThen (ensureConnected this) (\<lambda>_.
     andThen (validateData env this dat True) (\<lambda>validated.
     andThen (drv_update env this query validated) (\<lambda>count.
     ret (count > 0))))"

definition save :: "'b env \<Rightarrow> nat \<Rightarrow> data \<Rightarrow> data \<Rightarrow> ('b, data) act" where
  "save env this query dat =
     andThen (ensureConnected this) (\<lambda>_.
     andThen (drv_getOne env this query) (\<lambda>existing.
     case existing of
       Some ex \<Rightarrow>
         andThen (validateData env this dat True) (\<lambda>validated.
         andThen (drv_update env this query validated) (\<lambda>_.
         ret (spread ex validated)))
     | None \<Rightarrow>
         andThen (validateData env this (spread query dat) False) (\<lambda>validated.
         drv_set env this validated)))"

definition remove :: "'b env \<Rightarrow> nat \<Rightarrow> data \<Rightarrow> ('b, int) act" where
  "remove env this query =
     andThen (ensureConnected this) (\<lambda>_. drv_delete env this query)"

definition removeOne :: "'b env \<Rightarrow> nat \<Rightarrow> data \<Rightarrow> ('b, bool) act" where
  "removeOne env this query =
     andThen (ensureConnected this) (\<lambda>_.
     andThen (drv_delete env this query) (\<lambda>count. ret (count > 0)))"

definition clear :: "'b env \<Rightarrow> nat \<Rightarrow> ('b, int) act" where
  "clear env this =
     andThen (ensureConnected this) (\<lambda>_. drv_delete env this [])"

definition has :: "'b env \<Rightarrow> nat \<Rightarrow> data \<Rightarrow> ('b, bool) act" where
  "has env this query =
     andThen (ensureConnected this) (\<lambda>_. drv_exists env this query)"

definition count :: "'b env \<Rightarrow> nat \<Rightarrow> data \<Rightarrow> ('b, int) act" where
  "count env this query =
     andThen (ensureConnected this) (\<lambda>_. drv_count env this query)"

definition countBy :: "'b env \<Rightarrow> nat \<Rightarrow> string \<Rightarrow> jsval \<Rightarrow> ('b, int) act" where
  "countBy env this fld val =
     andThen (ensureConnected this) (\<lambda>_. drv_count env this [(fld, val)])"

definition getById :: "'b env \<Rightarrow> nat \<Rightarrow> jsval \<Rightarrow> ('b, data option) act" where
  "getById env this ident =
     andThen (ensureConnected this) (\<lambda>_. drv_getOne env this [(''_id'', ident)])"

definition updateById :: "'b env \<Rightarrow> nat \<Rightarrow> jsval \<Rightarrow> data \<Rightarrow> ('b, bool) act" where
  "updateById env this ident dat =
     andThen (ensureConnected this) (\<lambda>_.
     andThen (drv_update env this [(''_id'', ident)] dat) (\<lambda>count. ret (count > 0)))"

definition removeById :: "'b env \<Rightarrow> nat \<Rightarrow> jsval \<Rightarrow> ('b, bool) act" where
  "removeById env this ident =
     andThen (ensureConnected this) (\<lambda>_.
     andThen (drv_delete env this [(''_id'', ident)]) (\<lambda>count. ret (count > 0)))"

definition hasId :: "'b env \<Rightarrow> nat \<Rightarrow> jsval \<Rightarrow> ('b, bool) act" where
  "hasId env this ident =
     andThen (ensureConnected this) (\<lambda>_. drv_exists env this [(''_id'', ident)])"

definition getBy :: "'b env \<Rightarrow> nat \<Rightarrow> string \<Rightarrow> jsval \<Rightarrow> ('b, data list) act" where
  "getBy env this fld val =
     andThen (ensureConnected this) (\<lambda>_. drv_get env this [(fld, val)])"

definition hasBy :: "'b env \<Rightarrow> nat \<Rightarrow> string \<Rightarrow> jsval \<Rightarrow> ('b, bool) act" where
  "hasBy env this fld val =
     andThen (ensureConnected this) (\<lambda>_. drv_exists env this [(fld, val)])"

subsection \<open>Operations on what a query returns\<close>

definition sort_recs :: "'b env \<Rightarrow> nat \<Rightarrow> data \<Rightarrow> string \<Rightarrow> string \<Rightarrow> ('b, data list) act" where
  "sort_recs env this query fld direction =
     andThen (ensureConnected this) (\<lambda>_.
     andThen (drv_get env this query) (\<lambda>results.
     ret (js_sort env fld direction results)))"

definition select_fields :: "string list \<Rightarrow> data \<Rightarrow> data" where
  "select_fields flds record =
     fold (\<lambda>fld selected.
             if has_field record fld then set_field fld (field record fld) selected
             else selected) flds []"

definition select :: "'b env \<Rightarrow> nat \<Rightarrow> data \<Rightarrow> string list \<Rightarrow> ('b, data list) act" where
  "select env this query flds =
     andThen (ensureConnected this) (\<lambda>_.
     andThen (drv_get env this query) (\<lambda>results.
     ret (map (select_fields flds) results)))"

definition unique :: "'b env \<Rightarrow> nat \<Rightarrow> string \<Rightarrow> data \<Rightarrow> ('b, jsval list) act" where
  "unique env this fld query =
     andThen (ensureConnected this) (\<lambda>_.
     andThen (drv_get env this query) (\<lambda>results.
     ret (js_unique [] (map (\<lambda>record. field record fld) results))))"

definition group_recs :: "'b env \<Rightarrow> nat \<Rightarrow> string \<Rightarrow> data \<Rightarrow> ('b, data) act" where
  "group_recs env this fld query =
     andThen (ensureConnected this) (\<lambda>_.
     andThen (drv_get env this query) (\<lambda>results.
     ret (js_group env fld results)))"

definition paginate :: "'b env \<Rightarrow> nat \<Rightarrow> data \<Rightarrow> int \<Rightarrow> int \<Rightarrow> ('b, data) act" where
  "paginate env this query page pageSize =
     andThen (ensureConnected this) (\<lambda>_.
     andThen (drv_get env this query) (\<lambda>allResults.
     let total = int (length allResults);
         totalPages = js_ceil_div env total pageSize;
         startIndex = (page - 1) * pageSize;
         endIndex = startIndex + pageSize;
         dat = js_slice startIndex endIndex allResults
     in ret [(''data'', Arr (map Rec dat)), (''page'', Num page), (''pageSize'', Num pageSize),
             (''total'', Num total), (''totalPages'', totalPages)]))"

definition sum_field :: "'b env \<Rightarrow> nat \<Rightarrow> string \<Rightarrow> data \<Rightarrow> ('b, int) act" where
  "sum_field env this fld query =
     andThen (ensureConnected this) (\<lambda>_.
     andThen (drv_get env this query) (\<lambda>results.
     ret (fold (\<lambda>record acc. acc + js_number env (field record fld)) results 0)))"

definition increment :: "'b env \<Rightarrow> nat \<Rightarrow> data \<Rightarrow> string \<Rightarrow> int \<Rightarrow> ('b, int) act" where
  "increment env this query fld amount =
     andThen (ensureConnected this) (\<lambda>_.
     andThen (drv_getOne env this query) (\<lambda>record.
     case record of
       None \<Rightarrow> throw RecordNotFound
     | Some r \<Rightarrow>
         let currentValue = js_number env (field r fld);
             newValue = currentValue + amount
         in andThen (update env this query [(fld, Num newValue)]) (\<lambda>_. ret newValue)))"

definition decrement :: "'b env \<Rightarrow> nat \<Rightarrow> data \<Rightarrow> string \<Rightarrow> int \<Rightarrow> ('b, int) act" where
  "decrement env this query fld amount = increment env this query fld (- amount)"

text \<open>
  The loop shared by \<^verbatim>\<open>push\<close>, \<^verbatim>\<open>pull\<close>, \<^verbatim>\<open>shift\<close>, \<^verbatim>\<open>unshift\<close>, \<^verbatim>\<open>pop\<close>, \<^verbatim>\<open>unset\<close> and
  \<^verbatim>\<open>rename\<close>: each record the query returned is changed by \<open>change\<close>, or skipped when
  \<open>change\<close> gives \<open>None\<close>; a changed record is validated and written with
  \<^verbatim>\<open>driver.update(query, validated)\<close>, and counted.
\<close>

fun rewrite_loop ::
  "'b env \<Rightarrow> nat \<Rightarrow> data \<Rightarrow> (data \<Rightarrow> data option) \<Rightarrow> data list \<Rightarrow> int \<Rightarrow> ('b, int) act" where
  "rewrite_loop env this query change [] n = ret n"
| "rewrite_loop env this query change (record # rest) n =
     (case change record of
        None \<Rightarrow> rewrite_loop env this query change rest n
      | Some record' \<Rightarrow>
          andThen (validateData env this record' False) (\<lambda>validated.
          andThen (drv_update env this query validated) (\<lambda>_.
          rewrite_loop env this query change rest (n + 1))))"

definition rewrite_each ::
  "'b env \<Rightarrow> nat \<Rightarrow> data \<Rightarrow> (data \<Rightarrow> data option) \<Rightarrow> ('b, int) act" where
  "rewrite_each env this query change =
     andThen (ensureConnected this) (\<lambda>_.
     andThen (drv_get env this query) (\<lambda>records.
     rewrite_loop env this query change records 0))"

text \<open>\<^verbatim>\<open>Array.isArray(record[field])\<close> and the elements of the array.\<close>

fun array_of :: "jsval \<Rightarrow> jsval list option" where
  "array_of (Arr xs) = Some xs"
| "array_of v = None"

definition push :: "'b env \<Rightarrow> nat \<Rightarrow> data \<Rightarrow> string \<Rightarrow> jsval \<Rightarrow> ('b, int) act" where
  "push env this query fld val =
     rewrite_each env this query (\<lambda>record.
       case array_of (field record fld) of
         None \<Rightarrow> Some (set_field fld (Arr [val]) record)
       | Some xs \<Rightarrow> Some (set_field fld (Arr (xs @ [val])) record))"

definition pull :: "'b env \<Rightarrow> nat \<Rightarrow> data \<Rightarrow> string \<Rightarrow> jsval \<Rightarrow> ('b, int) act" where
  "pull env this query fld val =
     rewrite_each env this query (\<lambda>record.
       case array_of (field record fld) of
         None \<Rightarrow> None
       | Some xs \<Rightarrow>
           let ys = filter (\<lambda>item. js_stringify env item \<noteq> js_stringify env val) xs;
               zs = filter (\<lambda>item. js_stringify env item \<noteq> js_stringify env val) ys
           in if length zs \<noteq> length xs then Some (set_field fld (Arr zs) record) else None)"

definition shift :: "'b env \<Rightarrow> nat \<Rightarrow> data \<Rightarrow> string \<Rightarrow> ('b, int) act" where
  "shift env this query fld =
     rewrite_each env this query (\<lambda>record.
       case array_of (field record fld) of
         None \<Rightarrow> None
       | Some xs \<Rightarrow> if length xs > 0 then Some (set_field fld (Arr (tl xs)) record) else None)"

definition unshift :: "'b env \<Rightarrow> nat \<Rightarrow> data \<Rightarrow> string \<Rightarrow> jsval \<Rightarrow> ('b, int) act" where
  "unshift env this query fld val =
     rewrite_each env this query (\<lambda>record.
       case array_of (field record fld) of
         None \<Rightarrow> Some (set_field fld (Arr [val]) record)
       | Some xs \<Rightarrow> Some (set_field fld (Arr (val # xs)) record))"

definition pop :: "'b env \<Rightarrow> nat \<Rightarrow> data \<Rightarrow> string \<Rightarrow> ('b, int) act" where
  "pop env this query fld =
     rewrite_each env this query (\<lambda>record.
       case array_of (field record fld) of
         None \<Rightarrow> None
       | Some xs \<Rightarrow> if length xs > 0 then Some (set_field fld (Arr (butlast xs)) record) else None)"

definition unset :: "'b env \<Rightarrow> nat \<Rightarrow> data \<Rightarrow> string \<Rightarrow> ('b, int) act" where
  "unset env this query fld =
     rewrite_each env this query (\<lambda>record.
       if has_field record fld then Some (del_field fld record) else None)"

definition rename :: "'b env \<Rightarrow> nat \<Rightarrow> data \<Rightarrow> string \<Rightarrow> string \<Rightarrow> ('b, int) act" where
  "rename env this query oldField newField =
     rewrite_each env this query (\<lambda>record.
       if has_field record oldField
       then Some (del_field oldField (set_field newField (field record oldField) record))
       else None)"

definition first :: "'b env \<Rightarrow> nat \<Rightarrow> ('b, data option) act" where
  "first env this =
     andThen (ensureConnected this) (\<lambda>_.
     andThen (drv_get env this []) (\<lambda>results.
     ret (if length results > 0 then Some (hd results) else None)))"

definition last_rec :: "'b env \<Rightarrow> nat \<Rightarrow> ('b, data option) act" where
  "last_rec env this =
     andThen (ensureConnected this) (\<lambda>_.
     andThen (drv_get env this []) (\<lambda>results.
     ret (if length results > 0 then Some (last results) else None)))"

definition isEmpty :: "'b env \<Rightarrow> nat \<Rightarrow> ('b, bool) act" where
  "isEmpty env this =
     andThen (ensureConnected this) (\<lambda>_.
     andThen (drv_count env this []) (\<lambda>n. ret (n = 0)))"

definition random :: "'b env \<Rightarrow> nat \<Rightarrow> int \<Rightarrow> ('b, data list) act" where
  "random env this sampleSize =
     andThen (ensureConnected this) (\<lambda>_.
     andThen (drv_get env this []) (\<lambda>results.
     ret (js_slice 0 sampleSize (js_random_sort env results))))"


section \<open>The relationship resolver\<close>

text \<open>\<^verbatim>\<open>relation(name, target, localKey, foreignKey, type)\<close>\<close>

definition relation ::
  "nat \<Rightarrow> string \<Rightarrow> nat \<Rightarrow> string \<Rightarrow> string \<Rightarrow> rel_type \<Rightarrow> 'b sys \<Rightarrow> 'b sys" where
  "relation this name tgt lk fk ty s =
     s\<lparr>instances := (instances s)[this := (instances s ! this)
        \<lparr>relations := alist_set name
           \<lparr>target = tgt, localKey = lk, foreignKey = fk, rtype = ty\<rparr>
           (relations (instances s ! this))\<rparr>]\<rparr>"

subsection \<open>The batch function\<close>

text \<open>
  What the batch function returns for one key, from the records of the target: for
  cardinality \<^verbatim>\<open>one\<close> the last record whose foreign key is the key, or \<^verbatim>\<open>null\<close>; for
  \<^verbatim>\<open>many\<close> the array of all such records, in their order.
\<close>

definition batch_value :: "rel_type \<Rightarrow> string \<Rightarrow> data list \<Rightarrow> jsval \<Rightarrow> jsval" where
  "batch_value ty fk allRecords key =
     (let matching = filter (\<lambda>record. sameValueZero (field record fk) key) allRecords in
      case ty of
        One \<Rightarrow> (if matching = [] then Null else Rec (last matching))
      | Many \<Rightarrow> Arr (map Rec matching))"

text \<open>
  The function given to \<^verbatim>\<open>new DataLoader\<close>: one \<^verbatim>\<open>target.get({})\<close>, then the values of the
  keys. The call is noted in \<open>fetches\<close>.
\<close>

definition batch_fn :: "'b env \<Rightarrow> loader \<Rightarrow> jsval list \<Rightarrow> ('b, jsval list) act" where
  "batch_fn env ld keys =
     andThen (\<lambda>s. ret () (s\<lparr>fetches := fetches s @ [(l_target ld, keys)]\<rparr>)) (\<lambda>_.
     andThen (get env (l_target ld) [] None) (\<lambda>allRecords.
     ret (map (batch_value (l_type ld) (l_foreignKey ld) allRecords) keys)))"

subsection \<open>The loader\<close>

text \<open>
  The class \<^verbatim>\<open>DataLoader\<close> comes from the package \<^verbatim>\<open>dataloader\<close>, which \<^verbatim>\<open>Hawiah.ts\<close>
  imports and which is not part of the sources. The spec describes a loader as the memoizing
  batch function state of a relationship: a mapping from the foreign-key values already
  resolved to their results, and a mechanism that merges the keys not yet resolved into one
  underlying fetch.
\<close>

text \<open>
  Modelled from the spec: the lookup of a key in the cache of a \<^verbatim>\<open>DataLoader\<close> (the mapping
  from the values already resolved to their results; the class is not in the sources).
\<close>

fun dl_lookup :: "(jsval \<times> jsval) list \<Rightarrow> jsval \<Rightarrow> jsval option" where
  "dl_lookup [] key = None"
| "dl_lookup (kv # kvs) key = (if sameValueZero (fst kv) key then Some (snd kv) else dl_lookup kvs key)"

text \<open>
  Modelled from the spec: where \<^verbatim>\<open>DataLoader.load\<close> (not in the sources) takes the value of
  a key from, the cache or a place in the batch of the keys not yet resolved.
\<close>

datatype slot = Hit jsval | Queued nat

fun index_of :: "jsval list \<Rightarrow> jsval \<Rightarrow> nat option" where
  "index_of [] key = None"
| "index_of (k # ks) key =
     (if sameValueZero k key then Some 0
      else case index_of ks key of None \<Rightarrow> None | Some n \<Rightarrow> Some (Suc n))"

text \<open>
  Modelled from the spec: the calls of \<^verbatim>\<open>DataLoader.load\<close> (not in the sources) that
  \<^verbatim>\<open>loadMany(keys)\<close> makes, one for each key in turn. A key found in the cache is served from
  it; the keys not found are merged, each once, into one batch.
\<close>

fun dl_load :: "(jsval \<times> jsval) list \<Rightarrow> jsval list \<Rightarrow> jsval list \<Rightarrow> slot list \<times> jsval list" where
  "dl_load c batch [] = ([], batch)"
| "dl_load c batch (key # keys) =
     (case dl_lookup c key of
        Some v \<Rightarrow> (let (slots, batch') = dl_load c batch keys in (Hit v # slots, batch'))
      | None \<Rightarrow>
          (case index_of batch key of
             Some n \<Rightarrow> (let (slots, batch') = dl_load c batch keys in (Queued n # slots, batch'))
           | None \<Rightarrow>
               (let (slots, batch') = dl_load c (batch @ [key]) keys
                in (Queued (length batch) # slots, batch'))))"

definition slot_value :: "(nat \<Rightarrow> jsval) \<Rightarrow> slot \<Rightarrow> jsval" where
  "slot_value queued sl = (case sl of Hit v \<Rightarrow> v | Queued n \<Rightarrow> queued n)"

text \<open>
  Modelled from the spec: \<^verbatim>\<open>DataLoader.loadMany(keys)\<close> (not in the sources), which returns
  the values of the keys, in their order, and leaves the loader with a larger cache. The batch
  function is called once with the batch, and not at all when the batch is empty: the keys in
  one call trigger one underlying fetch, and keys already resolved trigger none. The values it
  returns are cached under their keys. When the batch function fails, nothing is cached and the
  keys of the batch get the error as their value, as the package does.
\<close>

definition dl_loadMany ::
  "'b env \<Rightarrow> loader \<Rightarrow> jsval list \<Rightarrow> 'b sys \<Rightarrow> (jsval list \<times> loader) \<times> 'b sys" where
  "dl_loadMany env ld keys s =
     (let (slots, batch) = dl_load (cache ld) [] keys in
      if batch = [] then ((map (slot_value (\<lambda>n. Undefined)) slots, ld), s)
      else
        case batch_fn env ld batch s of
          (Inl e, s') \<Rightarrow> ((map (slot_value (\<lambda>n. ErrorObj e)) slots, ld), s')
        | (Inr values, s') \<Rightarrow>
            ((map (slot_value (\<lambda>n. values ! n)) slots,
              ld\<lparr>cache := cache ld @ zip batch values\<rparr>), s'))"

subsection \<open>\<^verbatim>\<open>loadRelation\<close>, \<^verbatim>\<open>getWith\<close>, \<^verbatim>\<open>getOneWith\<close>, \<^verbatim>\<open>clearCache\<close>\<close>

text \<open>The loop that writes the results onto the records.\<close>

fun write_back :: "string \<Rightarrow> string \<Rightarrow> rel_type \<Rightarrow> data list \<Rightarrow> jsval list \<Rightarrow> data list" where
  "write_back lk name ty [] results = []"
| "write_back lk name ty (record # rest) results =
     (if not_nullish (field record lk)
      then set_field name (case results of [] \<Rightarrow> Undefined | v # vs \<Rightarrow> v) record
             # write_back lk name ty rest (tl results)
      else set_field name (case ty of Many \<Rightarrow> Arr [] | One \<Rightarrow> Null) record
             # write_back lk name ty rest results)"

definition set_loader :: "nat \<Rightarrow> string \<Rightarrow> loader \<Rightarrow> 'b sys \<Rightarrow> 'b sys" where
  "set_loader this name ld s =
     s\<lparr>instances := (instances s)[this := (instances s ! this)
        \<lparr>loaders := alist_set name ld (loaders (instances s ! this))\<rparr>]\<rparr>"

text \<open>
  \<^verbatim>\<open>loadRelation(records, relationName)\<close>. The source writes the results on the objects it
  is given, which are the objects the driver handed out; the model returns the records with
  the results written on them and leaves \<open>backend\<close> as the fetch left it. With a driver that
  hands out the objects it stores (a store in memory), the stored objects gain the field too in
  the source; the model does not follow that sharing, and nothing is stated here about the
  content of the backend after a resolution.
\<close>

definition loadRelation :: "'b env \<Rightarrow> nat \<Rightarrow> data list \<Rightarrow> string \<Rightarrow> ('b, data list) act" where
  "loadRelation env this records relationName s =
     (case map_of (relations (instances s ! this)) relationName of
        None \<Rightarrow> throw (RelationNotDefined relationName) s
      | Some rel \<Rightarrow>
          let (ld, s1) =
                (case map_of (loaders (instances s ! this)) relationName of
                   Some ld \<Rightarrow> (ld, s)
                 | None \<Rightarrow>
                     (let ld = \<lparr>l_target = target rel, l_foreignKey = foreignKey rel,
                                l_type = rtype rel, cache = []\<rparr>
                      in (ld, set_loader this relationName ld s)));
              keys = filter not_nullish (map (\<lambda>r. field r (localKey rel)) records)
          in
            if length keys = 0 then ret records s1
            else
              let ((results, ld'), s2) = dl_loadMany env ld keys s1
              in ret (write_back (localKey rel) relationName (rtype rel) records results)
                   (set_loader this relationName ld' s2))"

fun loadRelations :: "'b env \<Rightarrow> nat \<Rightarrow> string list \<Rightarrow> data list \<Rightarrow> ('b, data list) act" where
  "loadRelations env this [] records = ret records"
| "loadRelations env this (relationName # rest) records =
     andThen (loadRelation env this records relationName) (\<lambda>records'.
     loadRelations env this rest records')"

definition getWith :: "'b env \<Rightarrow> nat \<Rightarrow> data \<Rightarrow> string list \<Rightarrow> ('b, data list) act" where
  "getWith env this query rels =
     andThen (ensureConnected this) (\<lambda>_.
     andThen (drv_get env this query) (\<lambda>records.
     if length rels = 0 \<or> length records = 0 then ret records
     else loadRelations env this rels records))"

definition getOneWith :: "'b env \<Rightarrow> nat \<Rightarrow> data \<Rightarrow> string list \<Rightarrow> ('b, data option) act" where
  "getOneWith env this query rels =
     andThen (ensureConnected this) (\<lambda>_.
     andThen (drv_getOne env this query) (\<lambda>record.
     case record of
       None \<Rightarrow> ret None
     | Some r \<Rightarrow>
         if length rels = 0 then ret (Some r)
         else andThen (loadRelations env this rels [r]) (\<lambda>rs. ret (Some (hd rs)))))"

definition clearCache :: "nat \<Rightarrow> 'b sys \<Rightarrow> 'b sys" where
  "clearCache this s =
     s\<lparr>instances := (instances s)[this := (instances s ! this)\<lparr>loaders := []\<rparr>]\<rparr>"

text \<open>The non-null local keys of the records, in the order of the records.\<close>

definition lookup_keys :: "string \<Rightarrow> data list \<Rightarrow> jsval list" where
  "lookup_keys lk records = filter not_nullish (map (\<lambda>r. field r lk) records)"

text \<open>The loader \<^verbatim>\<open>loadRelation\<close> uses: the stored one, or a new one for the relation.\<close>

definition loader_for :: "hawiah \<Rightarrow> string \<Rightarrow> relation \<Rightarrow> loader" where
  "loader_for inst name rel =
     (case map_of (loaders inst) name of
        Some ld \<Rightarrow> ld
      | None \<Rightarrow> \<lparr>l_target = target rel, l_foreignKey = foreignKey rel, l_type = rtype rel,
                  cache = []\<rparr>)"

text \<open>The state in which \<^verbatim>\<open>loadRelation\<close> calls \<^verbatim>\<open>loadMany\<close>: the loader is stored.\<close>

definition with_loader :: "nat \<Rightarrow> string \<Rightarrow> relation \<Rightarrow> 'b sys \<Rightarrow> 'b sys" where
  "with_loader this name rel s =
     (case map_of (loaders (instances s ! this)) name of
        Some ld \<Rightarrow> s
      | None \<Rightarrow> set_loader this name (loader_for (instances s ! this) name rel) s)"


subsection \<open>Every operation on the data\<close>

datatype op =
    Insert data
  | InsertMany "data list"
  | Get data "int option"
  | GetOne data
  | GetAll
  | GetMany "data list"
  | Update data data
  | UpdateOne data data
  | Save data data
  | Remove data
  | RemoveOne data
  | Clear
  | Has data
  | Count data
  | CountBy string jsval
  | GetById jsval
  | UpdateById jsval data
  | RemoveById jsval
  | HasId jsval
  | GetBy string jsval
  | HasBy string jsval
  | Sort data string string
  | Select data "string list"
  | Unique string data
  | Group string data
  | Paginate data int int
  | Sum string data
  | Increment data string int
  | Decrement data string int
  | Push data string jsval
  | Pull data string jsval
  | Shift data string
  | Unshift data string jsval
  | Pop data string
  | Unset data string
  | Rename data string string
  | First
  | Last
  | IsEmpty
  | Random int
  | GetWith data "string list"
  | GetOneWith data "string list"

text \<open>The value an operation resolves to, as a JavaScript value.\<close>

definition as_records :: "data list \<Rightarrow> jsval" where
  "as_records rs = Arr (map Rec rs)"

definition as_record_or_null :: "data option \<Rightarrow> jsval" where
  "as_record_or_null r = (case r of None \<Rightarrow> Null | Some d \<Rightarrow> Rec d)"

definition returning :: "('a \<Rightarrow> jsval) \<Rightarrow> ('b, 'a) act \<Rightarrow> ('b, jsval) act" where
  "returning f m = andThen m (\<lambda>a. ret (f a))"

fun perform :: "'b env \<Rightarrow> nat \<Rightarrow> op \<Rightarrow> ('b, jsval) act" where
  "perform env this (Insert d) = returning Rec (insert_rec env this d)"
| "perform env this (InsertMany ds) = returning as_records (insertMany env this ds)"
| "perform env this (Get q limit) = returning as_records (get env this q limit)"
| "perform env this (GetOne q) = returning as_record_or_null (getOne env this q)"
| "perform env this GetAll = returning as_records (getAll env this)"
| "perform env this (GetMany qs) = returning as_records (getMany env this qs)"
| "perform env this (Update q d) = returning Num (update env this q d)"
| "perform env this (UpdateOne q d) = returning Bool (updateOne env this q d)"
| "perform env this (Save q d) = returning Rec (save env this q d)"
| "perform env this (Remove q) = returning Num (remove env this q)"
| "perform env this (RemoveOne q) = returning Bool (removeOne env this q)"
| "perform env this Clear = returning Num (clear env this)"
| "perform env this (Has q) = returning Bool (has env this q)"
| "perform env this (Count q) = returning Num (count env this q)"
| "perform env this (CountBy f v) = returning Num (countBy env this f v)"
| "perform env this (GetById i) = returning as_record_or_null (getById env this i)"
| "perform env this (UpdateById i d) = returning Bool (updateById env this i d)"
| "perform env this (RemoveById i) = returning Bool (removeById env this i)"
| "perform env this (HasId i) = returning Bool (hasId env this i)"
| "perform env this (GetBy f v) = returning as_records (getBy env this f v)"
| "perform env this (HasBy f v) = returning Bool (hasBy env this f v)"
| "perform env this (Sort q f dir) = returning as_records (sort_recs env this q f dir)"
| "perform env this (Select q fs) = returning as_records (select env this q fs)"
| "perform env this (Unique f q) = returning Arr (unique env this f q)"
| "perform env this (Group f q) = returning Rec (group_recs env this f q)"
| "perform env this (Paginate q page pageSize) = returning Rec (paginate env this q page pageSize)"
| "perform env this (Sum f q) = returning Num (sum_field env this f q)"
| "perform env this (Increment q f n) = returning Num (increment env this q f n)"
| "perform env this (Decrement q f n) = returning Num (decrement env this q f n)"
| "perform env this (Push q f v) = returning Num (push env this q f v)"
| "perform env this (Pull q f v) = returning Num (pull env this q f v)"
| "perform env this (Shift q f) = returning Num (shift env this q f)"
| "perform env this (Unshift q f v) = returning Num (unshift env this q f v)"
| "perform env this (Pop q f) = returning Num (pop env this q f)"
| "perform env this (Unset q f) = returning Num (unset env this q f)"
| "perform env this (Rename q f g) = returning Num (rename env this q f g)"
| "perform env this First = returning as_record_or_null (first env this)"
| "perform env this Last = returning as_record_or_null (last_rec env this)"
| "perform env this IsEmpty = returning Bool (isEmpty env this)"
| "perform env this (Random n) = returning as_records (random env this n)"
| "perform env this (GetWith q rels) = returning as_records (getWith env this q rels)"
| "perform env this (GetOneWith q rels) = returning as_record_or_null (getOneWith env this q rels)"


section \<open>A small process\<close>

text \<open>
  A driver environment for examples: the backend is one list of records, every query returns
  all of them, and nothing fails. Two connected instances, \<open>posts\<close> with the relation
  \<^verbatim>\<open>author\<close> to \<open>authors\<close>, and two authors in the backend.
\<close>

definition demo_env :: "(data list) env" where
  "demo_env = \<lparr>
     d_set = (\<lambda>d x b. (Inr x, b @ [x])),
     d_get = (\<lambda>d q b. (Inr b, b)),
     d_getOne = (\<lambda>d q b. (Inr (case b of [] \<Rightarrow> None | x # xs \<Rightarrow> Some x), b)),
     d_update = (\<lambda>d q x b. (Inr 0, b)),
     d_delete = (\<lambda>d q b. (Inr 0, b)),
     d_exists = (\<lambda>d q b. (Inr (b \<noteq> []), b)),
     d_count = (\<lambda>d q b. (Inr (int (length b)), b)),
     dbType = (\<lambda>d. Undefined),
     validate = (\<lambda>sch x partial. Inr x),
     js_stringify = (\<lambda>v. []),
     js_number = (\<lambda>v. 0),
     js_ceil_div = (\<lambda>a b. Num 0),
     js_sort = (\<lambda>f dir rs. rs),
     js_group = (\<lambda>f rs. []),
     js_random_sort = (\<lambda>rs. rs)\<rparr>"

definition posts :: hawiah where
  "posts = \<lparr>driver = 0, isConnected = True,
     relations = [(''author'', \<lparr>target = 1, localKey = ''authorId'', foreignKey = ''id'', rtype = One\<rparr>)],
     loaders = [], schema = None, connectionKey = Undefined, phase = Returned\<rparr>"

definition authors :: hawiah where
  "authors = \<lparr>driver = 1, isConnected = True, relations = [], loaders = [], schema = None,
     connectionKey = Undefined, phase = Returned\<rparr>"

definition blog :: "(data list) sys" where
  "blog = \<lparr>instances = [posts, authors], driversPool = Map.empty,
     connectionPromises = Map.empty, promises = [],
     has_isConnected = (\<lambda>d. False), live = (\<lambda>d. False),
     backend = [[(''id'', Num 1), (''name'', Str ''Ann'')], [(''id'', Num 2), (''name'', Str ''Bob'')]],
     trace = [], fetches = []\<rparr>"

definition first_posts :: "data list" where
  "first_posts = [[(''id'', Num 10), (''authorId'', Num 1)], [(''id'', Num 11), (''authorId'', Num 2)]]"

definition next_posts :: "data list" where
  "next_posts = [[(''id'', Num 20), (''authorId'', Num 2)], [(''id'', Num 21), (''authorId'', Num 3)]]"

definition blog1 :: "(data list) sys" where
  "blog1 = snd (loadRelation demo_env 0 first_posts ''author'' blog)"

definition blog2 :: "(data list) sys" where
  "blog2 = snd (loadRelation demo_env 0 next_posts ''author'' blog1)"

definition blog3 :: "(data list) sys" where
  "blog3 = snd (loadRelation demo_env 0 next_posts ''author'' (clearCache 0 blog2))"

text \<open>
  The same blog with a driver whose \<^verbatim>\<open>get\<close> fails: the authors of the first posts are
  resolved, then the authors of the next posts, which share the author 2 with the first.
\<close>

definition failing_env :: "(data list) env" where
  "failing_env = demo_env\<lparr>d_get := (\<lambda>d q b. (Inl (DriverError ''timeout''), b))\<rparr>"

definition failed1 :: "(data list) sys" where
  "failed1 = snd (loadRelation failing_env 0 first_posts ''author'' blog)"

definition failed2 :: "(data list) sys" where
  "failed2 = snd (loadRelation failing_env 0 next_posts ''author'' failed1)"

text \<open>
  The blog after the authors of the first posts have been resolved, with a third instance, and
  with the relation \<^verbatim>\<open>author\<close> declared again, now to the third instance.
\<close>

definition archive :: hawiah where
  "archive = \<lparr>driver = 2, isConnected = True, relations = [], loaders = [], schema = None,
     connectionKey = Undefined, phase = Returned\<rparr>"

definition blog_redeclared :: "(data list) sys" where
  "blog_redeclared =
     relation 0 ''author'' 2 ''authorId'' ''id'' One
       (blog1\<lparr>instances := instances blog1 @ [archive]\<rparr>)"

section \<open>Properties of the fingerprint\<close>

lemma fold_key_step_acc:
  "fold (key_step js ign) cfg acc = acc @ fold (key_step js ign) cfg []"
proof (induction cfg arbitrary: acc)
  case Nil
  show ?case by simp
next
  case (Cons kv cfg)
  have "fold (key_step js ign) (kv # cfg) acc = fold (key_step js ign) cfg (key_step js ign kv acc)"
    by simp
  also have "\<dots> = key_step js ign kv acc @ fold (key_step js ign) cfg []"
    by (rule Cons.IH)
  also have "key_step js ign kv acc = acc @ key_step js ign kv []"
    by (simp add: key_step_def)
  finally have l: "fold (key_step js ign) (kv # cfg) acc
      = acc @ key_step js ign kv [] @ fold (key_step js ign) cfg []"
    by simp
  have "fold (key_step js ign) (kv # cfg) [] = fold (key_step js ign) cfg (key_step js ign kv [])"
    by simp
  also have "\<dots> = key_step js ign kv [] @ fold (key_step js ign) cfg []"
    by (rule Cons.IH)
  finally show ?case using l by simp
qed

lemma fold_key_step_ignored:
  "fold (key_step js ign) cfg acc
     = fold (key_step js ign) (filter (\<lambda>kv. fst kv \<notin> set ign) cfg) acc"
  by (induction cfg arbitrary: acc) (simp_all add: key_step_def)

lemma field_skip:
  "k \<noteq> k' \<Longrightarrow> field (pre @ (k, v) # post) k' = field (pre @ post) k'"
  by (simp add: field_def map_add_def split: option.splits)

lemma ignoreKeys_True: "set (ignoreKeys True) = set IGNORE_KEYS"
  by (simp add: ignoreKeys_def)

lemma ignoreKeys_False: "ignoreKeys False = [''connectionKey'']"
  by (simp add: ignoreKeys_def IGNORE_KEYS_def)

text \<open>
  Claim C7, as amended. For a driver that supports table switching, two configurations whose
  entries outside the exclusion set (the collection and table aliases and the override key
  \<^verbatim>\<open>connectionKey\<close>) are the same entries in the same order of enumeration (\<open>relevant\<close> gives
  the same list for both) have the same fingerprint, provided that they agree on the override
  whenever one of them carries a truthy one; in particular when neither does. The order is part
  of the hypothesis: the fingerprint joins the entries in the order in which \<^verbatim>\<open>for (key in
  config)\<close> enumerates them and does not sort them (see \<open>fingerprint_key_order_example\<close>).
\<close>

theorem fingerprint_ignores_aliases:
  assumes st: "supportsTable d = Some True"
    and rel: "relevant c1 = relevant c2"
    and ov: "truthy (field c1 ''connectionKey'') \<or> truthy (field c2 ''connectionKey'')
               \<Longrightarrow> field c1 ''connectionKey'' = field c2 ''connectionKey''"
  shows "getPoolKey js d c1 = getPoolKey js d c2"
proof (cases "truthy (field c1 ''connectionKey'') \<or> truthy (field c2 ''connectionKey'')")
  case True
  then have "field c1 ''connectionKey'' = field c2 ''connectionKey''" by (rule ov)
  with True show ?thesis by (simp add: getPoolKey_def)
next
  case False
  have "fold (key_step js (ignoreKeys True)) c1 (driver_name d)
      = fold (key_step js (ignoreKeys True)) (relevant c1) (driver_name d)"
    by (subst fold_key_step_ignored) (simp add: relevant_def ignoreKeys_True)
  also have "\<dots> = fold (key_step js (ignoreKeys True)) (relevant c2) (driver_name d)"
    by (simp add: rel)
  also have "\<dots> = fold (key_step js (ignoreKeys True)) c2 (driver_name d)"
    by (subst (2) fold_key_step_ignored) (simp add: relevant_def ignoreKeys_True)
  finally show ?thesis using False st by (simp add: getPoolKey_def)
qed

text \<open>
  An instance of C7 as amended: one configuration names the collection \<^verbatim>\<open>users\<close>, the other
  the table \<^verbatim>\<open>posts\<close> and an empty override.
\<close>

theorem fingerprint_ignores_aliases_witness:
  "supportsTable (DriverClass ''MongoDriver'' True) = Some True
   \<and> relevant [(''uri'', Str ''db''), (''collection'', Str ''users'')]
       = relevant [(''table'', Str ''posts''), (''uri'', Str ''db''), (''connectionKey'', Str [])]
   \<and> getPoolKey demo_stringify (DriverClass ''MongoDriver'' True)
         [(''uri'', Str ''db''), (''collection'', Str ''users'')]
       = getPoolKey demo_stringify (DriverClass ''MongoDriver'' True)
         [(''table'', Str ''posts''), (''uri'', Str ''db''), (''connectionKey'', Str [])]"
proof -
  have h1: "supportsTable (DriverClass ''MongoDriver'' True) = Some True" by simp
  have h2: "relevant [(''uri'', Str ''db''), (''collection'', Str ''users'')]
       = relevant [(''table'', Str ''posts''), (''uri'', Str ''db''), (''connectionKey'', Str [])]"
    by (simp add: relevant_def IGNORE_KEYS_def)
  have h3: "truthy (field [(''uri'', Str ''db''), (''collection'', Str ''users'')] ''connectionKey'')
      \<or> truthy (field [(''table'', Str ''posts''), (''uri'', Str ''db''),
                       (''connectionKey'', Str [])] ''connectionKey'')
      \<Longrightarrow> field [(''uri'', Str ''db''), (''collection'', Str ''users'')] ''connectionKey''
        = field [(''table'', Str ''posts''), (''uri'', Str ''db''),
                 (''connectionKey'', Str [])] ''connectionKey''"
    by (simp add: field_def)
  show ?thesis using fingerprint_ignores_aliases [OF h1 h2 h3] h1 h2 by simp
qed

text \<open>
  The same entries in another order give another fingerprint: the two configurations below
  bind \<^verbatim>\<open>uri\<close> and \<^verbatim>\<open>port\<close> to the same values and differ otherwise in an alias only, and the
  driver supports table switching.
\<close>

lemma fingerprint_key_order_example:
  "relevant [(''uri'', Str ''db''), (''port'', Num 1), (''table'', Str ''users'')]
     = [(''uri'', Str ''db''), (''port'', Num 1)]
   \<and> relevant [(''port'', Num 1), (''uri'', Str ''db''), (''collection'', Str ''posts'')]
     = [(''port'', Num 1), (''uri'', Str ''db'')]
   \<and> getPoolKey demo_stringify (DriverClass ''MongoDriver'' True)
        [(''uri'', Str ''db''), (''port'', Num 1), (''table'', Str ''users'')]
     = Inr (Str ''MongoDriver|uri:db|port:1'')
   \<and> getPoolKey demo_stringify (DriverClass ''MongoDriver'' True)
        [(''port'', Num 1), (''uri'', Str ''db''), (''collection'', Str ''posts'')]
     = Inr (Str ''MongoDriver|port:1|uri:db'')"
  by (simp add: getPoolKey_def field_def ignoreKeys_def IGNORE_KEYS_def key_step_def
      relevant_def key_segment_def show_int_def digits.simps)

text \<open>
  C7 as stated fails: the two configurations below differ only in the override key, the driver
  supports table switching, and the fingerprints differ, because a truthy override is returned
  as it is.
\<close>

theorem fingerprint_override_counterexample:
  "supportsTable (DriverClass ''MongoDriver'' True) = Some True
   \<and> relevant [(''uri'', Str ''db'')] = relevant [(''uri'', Str ''db''), (''connectionKey'', Str ''x'')]
   \<and> getPoolKey demo_stringify (DriverClass ''MongoDriver'' True) [(''uri'', Str ''db'')]
       = Inr (Str ''MongoDriver|uri:db'')
   \<and> getPoolKey demo_stringify (DriverClass ''MongoDriver'' True)
         [(''uri'', Str ''db''), (''connectionKey'', Str ''x'')]
       = Inr (Str ''x'')"
  by (simp add: relevant_def IGNORE_KEYS_def getPoolKey_def field_def key_step_def ignoreKeys_def
      key_segment_def)

text \<open>
  Claim C6, as amended. For a driver that does not support table switching, two configurations
  that carry no truthy override and differ only in the name, a string, bound to one
  sub-resource key have different fingerprints.
\<close>

theorem fingerprint_keeps_subresource:
  assumes st: "supportsTable d = Some False"
    and k: "k \<in> set subresource_keys"
    and ne: "a \<noteq> b"
    and ov: "\<not> truthy (field (pre @ (k, Str a) # post) ''connectionKey'')"
  shows "getPoolKey js d (pre @ (k, Str a) # post) \<noteq> getPoolKey js d (pre @ (k, Str b) # post)"
proof -
  have kck: "k \<noteq> ''connectionKey''" using k by (auto simp: subresource_keys_def)
  have f: "field (pre @ (k, Str b) # post) ''connectionKey''
             = field (pre @ (k, Str a) # post) ''connectionKey''"
    using kck by (simp add: field_skip)
  let ?f = "key_step js (ignoreKeys False)"
  have seg: "?f (k, Str v) acc = acc @ ''|'' @ k @ '':'' @ v" for v acc
    using kck by (simp add: key_step_def ignoreKeys_False key_segment_def)
  have e: "fold ?f (pre @ (k, Str v) # post) (driver_name d)
         = (fold ?f pre (driver_name d) @ ''|'' @ k @ '':'') @ v @ fold ?f post []" for v
  proof -
    have "fold ?f (pre @ (k, Str v) # post) (driver_name d)
        = fold ?f post (?f (k, Str v) (fold ?f pre (driver_name d)))" by simp
    also have "\<dots> = ?f (k, Str v) (fold ?f pre (driver_name d)) @ fold ?f post []"
      by (rule fold_key_step_acc)
    finally show ?thesis by (simp add: seg)
  qed
  have "fold ?f (pre @ (k, Str a) # post) (driver_name d)
      \<noteq> fold ?f (pre @ (k, Str b) # post) (driver_name d)"
    unfolding e using ne by simp
  then show ?thesis using st ov f by (simp add: getPoolKey_def)
qed

text \<open>An instance of C6 as amended: a file database opened for two tables.\<close>

theorem fingerprint_keeps_subresource_witness:
  "supportsTable (DriverClass ''JsonDriver'' False) = Some False
   \<and> ''tableName'' \<in> set subresource_keys
   \<and> ''users'' \<noteq> ''posts''
   \<and> \<not> truthy (field ([(''path'', Str ''db.json'')] @ (''tableName'', Str ''users'') # [])
                  ''connectionKey'')
   \<and> getPoolKey demo_stringify (DriverClass ''JsonDriver'' False)
         ([(''path'', Str ''db.json'')] @ (''tableName'', Str ''users'') # [])
       \<noteq> getPoolKey demo_stringify (DriverClass ''JsonDriver'' False)
         ([(''path'', Str ''db.json'')] @ (''tableName'', Str ''posts'') # [])"
proof -
  have h1: "supportsTable (DriverClass ''JsonDriver'' False) = Some False" by simp
  have h2: "''tableName'' \<in> set subresource_keys" by (simp add: subresource_keys_def)
  have h3: "''users'' \<noteq> ''posts''" by simp
  have h4: "\<not> truthy (field ([(''path'', Str ''db.json'')] @ (''tableName'', Str ''users'') # [])
                  ''connectionKey'')"
    by (simp add: field_def)
  show ?thesis
    using fingerprint_keeps_subresource [OF h1 h2 h3 h4, of demo_stringify] h1 h2 h3 h4 by blast
qed

text \<open>
  C6 as stated fails: the driver does not support table switching, the two configurations
  differ only in the table name, and both have the fingerprint given by their override.
\<close>

theorem fingerprint_subresource_counterexample:
  "supportsTable (DriverClass ''JsonDriver'' False) = Some False
   \<and> getPoolKey demo_stringify (DriverClass ''JsonDriver'' False)
         [(''connectionKey'', Str ''main''), (''tableName'', Str ''users'')]
       = Inr (Str ''main'')
   \<and> getPoolKey demo_stringify (DriverClass ''JsonDriver'' False)
         [(''connectionKey'', Str ''main''), (''tableName'', Str ''posts'')]
       = Inr (Str ''main'')"
  by (simp add: getPoolKey_def field_def)

text \<open>
  Claim C10. A configuration entry bound to \<^verbatim>\<open>null\<close> adds nothing to the fingerprint: for
  every driver and every key other than the override key (so for every identity-relevant key),
  the configuration with the entry and the configuration without it have the same fingerprint.
  The equation holds whether or not the configuration carries an override.
\<close>

theorem fingerprint_skips_null:
  assumes "k \<noteq> ''connectionKey''"
  shows "getPoolKey js d (pre @ (k, Null) # post) = getPoolKey js d (pre @ post)"
proof -
  have f: "field (pre @ (k, Null) # post) ''connectionKey'' = field (pre @ post) ''connectionKey''"
    using assms by (simp add: field_skip)
  have ks: "key_step js ign (k, Null) acc = acc" for ign acc
    by (simp add: key_step_def key_segment_def)
  have fe: "fold (key_step js ign) (pre @ (k, Null) # post) acc
            = fold (key_step js ign) (pre @ post) acc" for ign acc
    by (simp add: ks)
  show ?thesis unfolding getPoolKey_def f fe by (rule refl)
qed

text \<open>An instance of C10: a \<^verbatim>\<open>null\<close> password between two other options.\<close>

theorem fingerprint_skips_null_witness:
  "''password'' \<noteq> ''connectionKey''
   \<and> getPoolKey demo_stringify (DriverClass ''JsonDriver'' False)
         ([(''path'', Str ''db.json'')] @ (''password'', Null) # [(''port'', Num 5432)])
       = Inr (Str ''JsonDriver|path:db.json|port:5432'')
   \<and> getPoolKey demo_stringify (DriverClass ''JsonDriver'' False)
         ([(''path'', Str ''db.json'')] @ [(''port'', Num 5432)])
       = Inr (Str ''JsonDriver|path:db.json|port:5432'')"
proof -
  have h: "''password'' \<noteq> ''connectionKey''" by simp
  have v: "show_int 5432 = ''5432''" by (simp add: show_int_def digits.simps)
  have e: "getPoolKey demo_stringify (DriverClass ''JsonDriver'' False)
         ([(''path'', Str ''db.json'')] @ [(''port'', Num 5432)])
       = Inr (Str ''JsonDriver|path:db.json|port:5432'')"
    by (simp add: getPoolKey_def field_def key_step_def ignoreKeys_def IGNORE_KEYS_def
        key_segment_def v)
  show ?thesis
    using fingerprint_skips_null [OF h, of demo_stringify "DriverClass ''JsonDriver'' False"
        "[(''path'', Str ''db.json'')]" "[(''port'', Num 5432)]"] h e
    by simp
qed

section \<open>Properties of the connection coordinator\<close>













lemma exec_Nil: "exec [] s = s"
  by (simp add: exec_def)













subsection \<open>A rejected promise stays\<close>




subsection \<open>A call that finds the rejected promise\<close>


subsection \<open>Schedules in which every connect succeeds\<close>





subsection \<open>Every instance calls, the driver completes, every call continues\<close>








subsection \<open>The claims about \<^verbatim>\<open>connect\<close> and \<^verbatim>\<open>disconnect\<close>\<close>







text \<open>
  Claim C9. \<^verbatim>\<open>disconnect()\<close> leaves \<^verbatim>\<open>driversPool\<close> as it is, and
  \<^verbatim>\<open>connectionPromises\<close> and the other instances too. On an instance that is not marked
  connected it changes nothing and invokes nothing. On an instance that is marked connected it
  invokes the driver's \<^verbatim>\<open>disconnect\<close>, once, and when that completes the instance is no
  longer marked connected.
\<close>

theorem disconnect_frame:
  assumes i: "i < length (instances s)"
  shows "driversPool (snd (disconnect i r s)) = driversPool s
    \<and> connectionPromises (snd (disconnect i r s)) = connectionPromises s
    \<and> (\<forall>j. j \<noteq> i \<longrightarrow> instances (snd (disconnect i r s)) ! j = instances s ! j)
    \<and> (\<not> isConnected (instances s ! i) \<longrightarrow> disconnect i r s = (Inr (), s))
    \<and> (isConnected (instances s ! i) \<longrightarrow>
         trace (snd (disconnect i r s)) = trace s @ [Disconnect (driver (instances s ! i))]
         \<and> (r = None \<longrightarrow> fst (disconnect i r s) = Inr ()
               \<and> \<not> isConnected (instances (snd (disconnect i r s)) ! i)))"
  using i by (simp add: disconnect_def Let_def split: option.splits)

text \<open>
  An instance of C9: the first of three connected instances disconnects, and an instance that
  was never connected disconnects.
\<close>

theorem disconnect_frame_witness:
  "0 < length (instances (exec (drain None 3) demo_sys))
   \<and> isConnected (instances (exec (drain None 3) demo_sys) ! 0)
   \<and> driversPool (snd (disconnect 0 None (exec (drain None 3) demo_sys)))
        (Str ''MongoDriver|uri:db'') = Some 0
   \<and> trace (snd (disconnect 0 None (exec (drain None 3) demo_sys))) = [Connect 0, Disconnect 0]
   \<and> \<not> isConnected (instances (snd (disconnect 0 None (exec (drain None 3) demo_sys))) ! 0)
   \<and> \<not> isConnected (instances demo_sys ! 0)
   \<and> disconnect 0 None demo_sys = (Inr (), demo_sys)"
proof -
  have e: "exec (drain None 3) demo_sys =
     \<lparr>instances = [demo_inst 0\<lparr>isConnected := True, phase := Returned\<rparr>,
                   demo_inst 1\<lparr>isConnected := True, phase := Returned\<rparr>,
                   demo_inst 2\<lparr>isConnected := True, phase := Returned\<rparr>],
     driversPool = [Str ''MongoDriver|uri:db'' \<mapsto> 0],
     connectionPromises = [ByKey (Str ''MongoDriver|uri:db'') \<mapsto> 0], promises = [(Fulfilled, 0)],
     has_isConnected = (\<lambda>d. True), live = (\<lambda>d. False)(0 := True), backend = (),
     trace = [Connect 0], fetches = []\<rparr>"
    by (simp add: drain_def exec_def demo_sys_def demo_inst_def connect_enter_def settle_def
        connect_resume_def poolKey_def upt_rec)
  have h: "0 < length (instances (exec (drain None 3) demo_sys))" unfolding e by simp
  have c: "isConnected (instances (exec (drain None 3) demo_sys) ! 0)"
    unfolding e by (simp add: demo_inst_def)
  have h0: "0 < length (instances demo_sys)" by (simp add: demo_sys_def)
  have n: "\<not> isConnected (instances demo_sys ! 0)" by (simp add: demo_sys_def demo_inst_def)
  have p: "driversPool (exec (drain None 3) demo_sys) (Str ''MongoDriver|uri:db'') = Some 0"
    unfolding e by simp
  have t: "trace (exec (drain None 3) demo_sys) = [Connect 0]"
    "driver (instances (exec (drain None 3) demo_sys) ! 0) = 0"
    unfolding e by (simp_all add: demo_inst_def)
  show ?thesis
    using disconnect_frame [OF h, of None] disconnect_frame [OF h0, of None] h c n p t by simp
qed

section \<open>Properties of the relationship resolver\<close>

subsection \<open>What a fetch leaves alone\<close>

lemma get_frame:
  "instances (snd (get env t q l s)) = instances s \<and> fetches (snd (get env t q l s)) = fetches s"
  by (simp add: get_def andThen_def ensureConnected_def throw_def ret_def drv_get_def Let_def
      split: prod.splits sum.splits option.splits)

lemma batch_fn_frame:
  "instances (snd (batch_fn env ld keys s)) = instances s
   \<and> fetches (snd (batch_fn env ld keys s)) = fetches s @ [(l_target ld, keys)]"
proof -
  let ?s1 = "s\<lparr>fetches := fetches s @ [(l_target ld, keys)]\<rparr>"
  obtain r s2 where g: "get env (l_target ld) [] None ?s1 = (r, s2)" by fastforce
  have f: "instances s2 = instances s" "fetches s2 = fetches s @ [(l_target ld, keys)]"
    using get_frame [of env "l_target ld" "[]" None ?s1] g by simp_all
  have "snd (batch_fn env ld keys s) = s2"
    using g by (cases r) (simp_all add: batch_fn_def andThen_def ret_def)
  then show ?thesis using f by simp
qed

lemma batch_fn_length:
  "batch_fn env ld keys s = (Inr vals, s') \<Longrightarrow> length vals = length keys"
proof -
  let ?s1 = "s\<lparr>fetches := fetches s @ [(l_target ld, keys)]\<rparr>"
  assume b: "batch_fn env ld keys s = (Inr vals, s')"
  obtain r s2 where g: "get env (l_target ld) [] None ?s1 = (r, s2)" by fastforce
  show ?thesis using b g by (cases r) (auto simp add: batch_fn_def andThen_def ret_def)
qed

lemma batch_fn_ok:
  assumes ok: "isConnected (instances s ! l_target ld)"
    and drv: "fst (d_get env (driver (instances s ! l_target ld)) [] (backend s)) = Inr rows"
  shows "\<exists>vals s'. batch_fn env ld keys s = (Inr vals, s')"
proof -
  obtain b where d: "d_get env (driver (instances s ! l_target ld)) [] (backend s) = (Inr rows, b)"
    using drv by (cases "d_get env (driver (instances s ! l_target ld)) [] (backend s)") simp
  show ?thesis
    using ok d
    by (simp add: batch_fn_def get_def andThen_def ret_def throw_def ensureConnected_def
        drv_get_def this_driver_def Let_def)
qed

lemma batch_fn_trace:
  "trace (snd (batch_fn env ld keys s)) =
     (if isConnected (instances s ! l_target ld)
      then trace s @ [DGet (driver (instances s ! l_target ld)) []]
      else trace s)"
proof (cases "isConnected (instances s ! l_target ld)")
  case False
  then show ?thesis
    by (simp add: batch_fn_def get_def andThen_def ret_def throw_def ensureConnected_def)
next
  case True
  obtain r b where d: "d_get env (driver (instances s ! l_target ld)) [] (backend s) = (r, b)"
    by fastforce
  show ?thesis
    using True d
    by (cases r)
       (simp_all add: batch_fn_def get_def andThen_def ret_def throw_def ensureConnected_def
          drv_get_def this_driver_def Let_def)
qed

subsection \<open>The batch of a \<^verbatim>\<open>loadMany\<close>\<close>

lemma index_of_Some: "index_of b key = Some n \<Longrightarrow> key \<in> set b"
proof (induction b arbitrary: n)
  case Nil
  then show ?case by simp
next
  case (Cons x xs)
  show ?case
  proof (cases "sameValueZero x key")
    case True
    then show ?thesis by (simp add: sameValueZero_def)
  next
    case False
    then obtain m where "index_of xs key = Some m"
      using Cons.prems by (cases "index_of xs key") simp_all
    then have "key \<in> set xs" by (rule Cons.IH)
    then show ?thesis by simp
  qed
qed

lemma dl_load_snd:
  "snd (dl_load c b (key # keys)) =
     (if dl_lookup c key = None \<and> index_of b key = None then snd (dl_load c (b @ [key]) keys)
      else snd (dl_load c b keys))"
  by (simp add: split_def Let_def split: option.splits)

lemma dl_load_batch:
  "set (snd (dl_load c b keys)) = set b \<union> {k \<in> set keys. dl_lookup c k = None}"
proof (induction keys arbitrary: b)
  case Nil
  show ?case by simp
next
  case (Cons key keys)
  show ?case
  proof (cases "dl_lookup c key = None \<and> index_of b key = None")
    case True
    then have "snd (dl_load c b (key # keys)) = snd (dl_load c (b @ [key]) keys)"
      by (simp add: dl_load_snd del: dl_load.simps)
    then have "set (snd (dl_load c b (key # keys)))
        = set (b @ [key]) \<union> {k \<in> set keys. dl_lookup c k = None}"
      using Cons.IH [of "b @ [key]"] by simp
    also have "\<dots> = set b \<union> {k \<in> set (key # keys). dl_lookup c k = None}"
      using True by auto
    finally show ?thesis .
  next
    case False
    then have "snd (dl_load c b (key # keys)) = snd (dl_load c b keys)"
      by (auto simp add: dl_load_snd simp del: dl_load.simps)
    then have e: "set (snd (dl_load c b (key # keys)))
        = set b \<union> {k \<in> set keys. dl_lookup c k = None}"
      using Cons.IH [of b] by simp
    show ?thesis
    proof (cases "dl_lookup c key")
      case None
      then obtain n where "index_of b key = Some n" using False by auto
      then have "key \<in> set b" by (rule index_of_Some)
      then show ?thesis unfolding e using None by auto
    next
      case (Some v)
      then show ?thesis unfolding e by auto
    qed
  qed
qed

lemma dl_lookup_append:
  "dl_lookup c k \<noteq> None \<Longrightarrow> dl_lookup (c @ c') k \<noteq> None"
  by (induction c) auto

lemma dl_lookup_member:
  "(k, v) \<in> set c \<Longrightarrow> sameValueZero k k \<Longrightarrow> dl_lookup c k \<noteq> None"
  by (induction c) auto

lemma dl_lookup_found:
  "dl_lookup c k = Some v \<Longrightarrow> \<exists>k'. (k', v) \<in> set c \<and> sameValueZero k' k"
  by (induction c) (auto split: if_splits)

subsection \<open>The fetches of a \<^verbatim>\<open>loadMany\<close>\<close>

lemma dl_loadMany_empty:
  "snd (dl_load (cache ld) [] keys) = [] \<Longrightarrow>
     dl_loadMany env ld keys s
       = ((map (slot_value (\<lambda>n. Undefined)) (fst (dl_load (cache ld) [] keys)), ld), s)"
  by (simp add: dl_loadMany_def split_def Let_def)

lemma dl_loadMany_failed:
  "snd (dl_load (cache ld) [] keys) \<noteq> [] \<Longrightarrow>
   batch_fn env ld (snd (dl_load (cache ld) [] keys)) s = (Inl e, s') \<Longrightarrow>
     dl_loadMany env ld keys s
       = ((map (slot_value (\<lambda>n. ErrorObj e)) (fst (dl_load (cache ld) [] keys)), ld), s')"
  by (simp add: dl_loadMany_def split_def Let_def)

lemma dl_loadMany_loaded:
  "snd (dl_load (cache ld) [] keys) \<noteq> [] \<Longrightarrow>
   batch_fn env ld (snd (dl_load (cache ld) [] keys)) s = (Inr vals, s') \<Longrightarrow>
     dl_loadMany env ld keys s
       = ((map (slot_value (\<lambda>n. vals ! n)) (fst (dl_load (cache ld) [] keys)),
           ld\<lparr>cache := cache ld @ zip (snd (dl_load (cache ld) [] keys)) vals\<rparr>), s')"
  by (simp add: dl_loadMany_def split_def Let_def)

lemma dl_loadMany_state:
  "snd (dl_loadMany env ld keys s) =
     (if snd (dl_load (cache ld) [] keys) = [] then s
      else snd (batch_fn env ld (snd (dl_load (cache ld) [] keys)) s))"
proof (cases "snd (dl_load (cache ld) [] keys) = []")
  case True
  then show ?thesis by (simp add: dl_loadMany_empty)
next
  case False
  obtain r s' where b: "batch_fn env ld (snd (dl_load (cache ld) [] keys)) s = (r, s')"
    by fastforce
  show ?thesis
  proof (cases r)
    case (Inl e)
    then have "dl_loadMany env ld keys s
        = ((map (slot_value (\<lambda>n. ErrorObj e)) (fst (dl_load (cache ld) [] keys)), ld), s')"
      using b by (intro dl_loadMany_failed [OF False]) simp
    then show ?thesis using False b by simp
  next
    case (Inr vals)
    then have "dl_loadMany env ld keys s
       = ((map (slot_value (\<lambda>n. vals ! n)) (fst (dl_load (cache ld) [] keys)),
           ld\<lparr>cache := cache ld @ zip (snd (dl_load (cache ld) [] keys)) vals\<rparr>), s')"
      using b by (intro dl_loadMany_loaded [OF False]) simp
    then show ?thesis using False b by simp
  qed
qed

lemma dl_loadMany_instances: "instances (snd (dl_loadMany env ld keys s)) = instances s"
  using batch_fn_frame [of env ld "snd (dl_load (cache ld) [] keys)" s]
  by (simp add: dl_loadMany_state)

lemma dl_loadMany_cached:
  assumes "\<forall>k \<in> set keys. dl_lookup (cache ld) k \<noteq> None"
  shows "snd (dl_loadMany env ld keys s) = s \<and> snd (fst (dl_loadMany env ld keys s)) = ld"
proof -
  have "set (snd (dl_load (cache ld) [] keys)) = {}"
    using assms by (simp add: dl_load_batch)
  then have "snd (dl_load (cache ld) [] keys) = []" by simp
  then show ?thesis by (simp add: dl_loadMany_empty)
qed

lemma dl_loadMany_fetch:
  assumes "\<exists>k \<in> set keys. dl_lookup (cache ld) k = None"
  shows "\<exists>batch. fetches (snd (dl_loadMany env ld keys s)) = fetches s @ [(l_target ld, batch)]
           \<and> set batch = {k \<in> set keys. dl_lookup (cache ld) k = None}"
proof -
  let ?batch = "snd (dl_load (cache ld) [] keys)"
  have sb: "set ?batch = {k \<in> set keys. dl_lookup (cache ld) k = None}"
    by (simp add: dl_load_batch)
  then have ne: "?batch \<noteq> []" using assms by auto
  have "fetches (snd (dl_loadMany env ld keys s)) = fetches s @ [(l_target ld, ?batch)]"
    using ne batch_fn_frame [of env ld ?batch s] by (simp add: dl_loadMany_state)
  then show ?thesis using sb by blast
qed

lemma dl_loadMany_cache_grows:
  "dl_lookup (cache ld) k \<noteq> None \<Longrightarrow>
     dl_lookup (cache (snd (fst (dl_loadMany env ld keys s)))) k \<noteq> None"
proof (cases "snd (dl_load (cache ld) [] keys) = []")
  case True
  assume "dl_lookup (cache ld) k \<noteq> None"
  then show ?thesis using True by (simp add: dl_loadMany_empty)
next
  case False
  assume c: "dl_lookup (cache ld) k \<noteq> None"
  obtain r s' where b: "batch_fn env ld (snd (dl_load (cache ld) [] keys)) s = (r, s')"
    by fastforce
  show ?thesis
  proof (cases r)
    case (Inl e)
    then have "batch_fn env ld (snd (dl_load (cache ld) [] keys)) s = (Inl e, s')"
      using b by simp
    from dl_loadMany_failed [OF False this] show ?thesis using c by simp
  next
    case (Inr vals)
    then have "batch_fn env ld (snd (dl_load (cache ld) [] keys)) s = (Inr vals, s')"
      using b by simp
    from dl_loadMany_loaded [OF False this] show ?thesis using c dl_lookup_append by simp
  qed
qed

lemma dl_loadMany_fills:
  assumes ok: "isConnected (instances s ! l_target ld)"
    and drv: "fst (d_get env (driver (instances s ! l_target ld)) [] (backend s)) = Inr rows"
    and k: "k \<in> set keys" and prim: "sameValueZero k k"
  shows "dl_lookup (cache (snd (fst (dl_loadMany env ld keys s)))) k \<noteq> None"
proof (cases "dl_lookup (cache ld) k")
  case (Some v)
  then show ?thesis by (intro dl_loadMany_cache_grows) simp
next
  case None
  let ?batch = "snd (dl_load (cache ld) [] keys)"
  have kb: "k \<in> set ?batch" using None k by (simp add: dl_load_batch)
  then have ne: "?batch \<noteq> []" by auto
  obtain vals s' where b: "batch_fn env ld ?batch s = (Inr vals, s')"
    using batch_fn_ok [OF ok drv] by blast
  have len: "length vals = length ?batch" using b by (rule batch_fn_length)
  obtain n where n: "n < length ?batch" "?batch ! n = k" using kb by (auto simp: in_set_conv_nth)
  then have "(k, vals ! n) \<in> set (zip ?batch vals)"
    using len by (auto simp add: set_zip)
  then have "(k, vals ! n) \<in> set (cache ld @ zip ?batch vals)" by simp
  then have "dl_lookup (cache ld @ zip ?batch vals) k \<noteq> None"
    using prim by (rule dl_lookup_member)
  then show ?thesis using dl_loadMany_loaded [OF ne b] by simp
qed

subsection \<open>\<^verbatim>\<open>loadRelation\<close>, step by step\<close>

lemma loadRelation_unfold:
  assumes rel: "map_of (relations (instances s ! this)) name = Some rel"
  shows "loadRelation env this records name s =
     (if lookup_keys (localKey rel) records = [] then (Inr records, with_loader this name rel s)
      else
        (Inr (write_back (localKey rel) name (rtype rel) records
               (fst (fst (dl_loadMany env (loader_for (instances s ! this) name rel)
                  (lookup_keys (localKey rel) records) (with_loader this name rel s))))),
         set_loader this name
           (snd (fst (dl_loadMany env (loader_for (instances s ! this) name rel)
                  (lookup_keys (localKey rel) records) (with_loader this name rel s))))
           (snd (dl_loadMany env (loader_for (instances s ! this) name rel)
                  (lookup_keys (localKey rel) records) (with_loader this name rel s)))))"
  using rel
  by (cases "map_of (loaders (instances s ! this)) name")
     (simp_all add: loadRelation_def with_loader_def loader_for_def lookup_keys_def ret_def
        split_def Let_def)

lemma set_loader_frame:
  "fetches (set_loader this name ld s) = fetches s"
  "trace (set_loader this name ld s) = trace s"
  "backend (set_loader this name ld s) = backend s"
  "length (instances (set_loader this name ld s)) = length (instances s)"
  by (simp_all add: set_loader_def)

lemma set_loader_core:
  "isConnected (instances (set_loader this name ld s) ! t) = isConnected (instances s ! t)"
  "driver (instances (set_loader this name ld s) ! t) = driver (instances s ! t)"
  "relations (instances (set_loader this name ld s) ! t) = relations (instances s ! t)"
proof -
  have "instances (set_loader this name ld s) ! t = instances s ! t
      \<or> instances (set_loader this name ld s) ! t
           = (instances s ! t)\<lparr>loaders := alist_set name ld (loaders (instances s ! t))\<rparr>"
  proof (cases "this < length (instances s)")
    case True
    then show ?thesis by (cases "t = this") (simp_all add: set_loader_def)
  next
    case False
    then show ?thesis by (simp add: set_loader_def list_update_beyond)
  qed
  then show
    "isConnected (instances (set_loader this name ld s) ! t) = isConnected (instances s ! t)"
    "driver (instances (set_loader this name ld s) ! t) = driver (instances s ! t)"
    "relations (instances (set_loader this name ld s) ! t) = relations (instances s ! t)"
    by auto
qed

lemma map_of_alist_set: "map_of (alist_set k v xs) k = Some v"
  by (induction xs) auto

lemma set_loader_loaders:
  "this < length (instances s) \<Longrightarrow>
     map_of (loaders (instances (set_loader this name ld s) ! this)) name = Some ld"
  by (simp add: set_loader_def map_of_alist_set)

lemma with_loader_frame:
  "fetches (with_loader this name rel s) = fetches s"
  "trace (with_loader this name rel s) = trace s"
  "backend (with_loader this name rel s) = backend s"
  "length (instances (with_loader this name rel s)) = length (instances s)"
  by (simp_all add: with_loader_def set_loader_frame split: option.splits)

lemma with_loader_core:
  "isConnected (instances (with_loader this name rel s) ! t) = isConnected (instances s ! t)"
  "driver (instances (with_loader this name rel s) ! t) = driver (instances s ! t)"
  "relations (instances (with_loader this name rel s) ! t) = relations (instances s ! t)"
  by (simp_all add: with_loader_def set_loader_core split: option.splits)

lemma loadRelation_fetches_none:
  assumes rel: "map_of (relations (instances s ! this)) name = Some rel"
    and cached: "\<forall>k \<in> set (lookup_keys (localKey rel) records).
        dl_lookup (cache (loader_for (instances s ! this) name rel)) k \<noteq> None"
  shows "fetches (snd (loadRelation env this records name s)) = fetches s"
  using dl_loadMany_cached [OF cached, of env "with_loader this name rel s"]
  by (simp add: loadRelation_unfold [OF rel] with_loader_frame set_loader_frame)

lemma loadRelation_fetches_one:
  assumes rel: "map_of (relations (instances s ! this)) name = Some rel"
    and un: "\<exists>k \<in> set (lookup_keys (localKey rel) records).
        dl_lookup (cache (loader_for (instances s ! this) name rel)) k = None"
  shows "\<exists>batch. fetches (snd (loadRelation env this records name s))
            = fetches s @ [(l_target (loader_for (instances s ! this) name rel), batch)]
         \<and> set batch = {k \<in> set (lookup_keys (localKey rel) records).
               dl_lookup (cache (loader_for (instances s ! this) name rel)) k = None}"
proof -
  have ne: "lookup_keys (localKey rel) records \<noteq> []" using un by auto
  show ?thesis
    using dl_loadMany_fetch [OF un, of env "with_loader this name rel s"] ne
    by (simp add: loadRelation_unfold [OF rel] with_loader_frame set_loader_frame)
qed

text \<open>The state of the instance after \<^verbatim>\<open>loadRelation\<close>: the relation stays, the loader is stored.\<close>

lemma loadRelation_length:
  assumes rel: "map_of (relations (instances s ! this)) name = Some rel"
  shows "length (instances (snd (loadRelation env this records name s))) = length (instances s)"
  by (simp add: loadRelation_unfold [OF rel] with_loader_frame set_loader_frame
      dl_loadMany_instances)

lemma loadRelation_relations:
  assumes rel: "map_of (relations (instances s ! this)) name = Some rel"
  shows "relations (instances (snd (loadRelation env this records name s)) ! t)
           = relations (instances s ! t)"
  by (simp add: loadRelation_unfold [OF rel] with_loader_core set_loader_core
      dl_loadMany_instances)

lemma loadRelation_target:
  assumes rel: "map_of (relations (instances s ! this)) name = Some rel"
  shows "l_target (snd (fst (dl_loadMany env ld keys s'))) = l_target ld"
proof (cases "snd (dl_load (cache ld) [] keys) = []")
  case True
  then show ?thesis by (simp add: dl_loadMany_empty)
next
  case False
  obtain r s'' where b: "batch_fn env ld (snd (dl_load (cache ld) [] keys)) s' = (r, s'')"
    by fastforce
  show ?thesis
  proof (cases r)
    case (Inl e)
    then have "batch_fn env ld (snd (dl_load (cache ld) [] keys)) s' = (Inl e, s'')"
      using b by simp
    from dl_loadMany_failed [OF False this] show ?thesis by simp
  next
    case (Inr vals)
    then have "batch_fn env ld (snd (dl_load (cache ld) [] keys)) s' = (Inr vals, s'')"
      using b by simp
    from dl_loadMany_loaded [OF False this] show ?thesis by simp
  qed
qed

lemma with_loader_loaders:
  assumes lt: "this < length (instances s)"
  shows "map_of (loaders (instances (with_loader this name rel s) ! this)) name
           = Some (loader_for (instances s ! this) name rel)"
proof (cases "map_of (loaders (instances s ! this)) name")
  case None
  then show ?thesis using lt by (simp add: with_loader_def set_loader_loaders)
next
  case (Some ld)
  then show ?thesis by (simp add: with_loader_def loader_for_def)
qed

text \<open>
  After a resolution whose fetch succeeds, the stored loader has every key of the resolution in
  its cache, and the keys it had before.
\<close>

lemma loadRelation_loader:
  assumes lt: "this < length (instances s)"
    and rel: "map_of (relations (instances s ! this)) name = Some rel"
  shows "\<exists>ld. map_of (loaders (instances (snd (loadRelation env this records name s)) ! this)) name
               = Some ld
           \<and> l_target ld = l_target (loader_for (instances s ! this) name rel)
           \<and> (isConnected (instances s ! l_target (loader_for (instances s ! this) name rel)) \<longrightarrow>
              fst (d_get env (driver (instances s ! l_target (loader_for (instances s ! this) name rel)))
                     [] (backend s)) = Inr rows \<longrightarrow>
              (\<forall>k \<in> set (lookup_keys (localKey rel) records).
                 sameValueZero k k \<longrightarrow> dl_lookup (cache ld) k \<noteq> None))"
proof (cases "lookup_keys (localKey rel) records = []")
  case True
  have e: "snd (loadRelation env this records name s) = with_loader this name rel s"
    using True by (simp add: loadRelation_unfold [OF rel])
  have "map_of (loaders (instances (with_loader this name rel s) ! this)) name
          = Some (loader_for (instances s ! this) name rel)"
    using lt by (rule with_loader_loaders)
  then show ?thesis unfolding e using True by simp
next
  case False
  let ?old = "loader_for (instances s ! this) name rel"
  let ?sw = "with_loader this name rel s"
  let ?keys = "lookup_keys (localKey rel) records"
  let ?r = "dl_loadMany env ?old ?keys ?sw"
  let ?ld = "snd (fst ?r)"
  have len: "this < length (instances (snd ?r))"
    using lt by (simp add: dl_loadMany_instances with_loader_frame)
  have e: "snd (loadRelation env this records name s) = set_loader this name ?ld (snd ?r)"
    using False by (simp add: loadRelation_unfold [OF rel])
  have a: "map_of (loaders (instances (snd (loadRelation env this records name s)) ! this)) name
             = Some ?ld"
    unfolding e using len by (rule set_loader_loaders)
  have b: "l_target ?ld = l_target ?old" using rel by (rule loadRelation_target)
  have c: "\<forall>k \<in> set ?keys. sameValueZero k k \<longrightarrow> dl_lookup (cache ?ld) k \<noteq> None"
    if ok: "isConnected (instances s ! l_target ?old)"
      and drv: "fst (d_get env (driver (instances s ! l_target ?old)) [] (backend s)) = Inr rows"
  proof (intro ballI impI)
    fix k assume k: "k \<in> set ?keys" and prim: "sameValueZero k k"
    have ok': "isConnected (instances ?sw ! l_target ?old)"
      using ok by (simp add: with_loader_core)
    have drv': "fst (d_get env (driver (instances ?sw ! l_target ?old)) [] (backend ?sw)) = Inr rows"
      using drv by (simp add: with_loader_core with_loader_frame)
    show "dl_lookup (cache ?ld) k \<noteq> None"
      using ok' drv' k prim by (rule dl_loadMany_fills)
  qed
  show ?thesis
  proof (intro exI conjI impI)
    show "map_of (loaders (instances (snd (loadRelation env this records name s)) ! this)) name
             = Some ?ld" by (rule a)
    show "l_target ?ld = l_target ?old" by (rule b)
    assume "isConnected (instances s ! l_target ?old)"
      and "fst (d_get env (driver (instances s ! l_target ?old)) [] (backend s)) = Inr rows"
    then show "\<forall>k \<in> set ?keys. sameValueZero k k \<longrightarrow> dl_lookup (cache ?ld) k \<noteq> None"
      by (rule c)
  qed
qed

subsection \<open>The write-back\<close>

lemma write_back_length: "length (write_back lk name ty records results) = length records"
  by (induction records arbitrary: results) simp_all

lemma write_back_nth:
  "i < length records \<Longrightarrow>
     \<exists>v. write_back lk name ty records results ! i = set_field name v (records ! i)
       \<and> (\<not> not_nullish (field (records ! i) lk) \<longrightarrow>
            v = (case ty of Many \<Rightarrow> Arr [] | One \<Rightarrow> Null))"
proof (induction records arbitrary: results i)
  case Nil
  then show ?case by simp
next
  case (Cons r rs)
  show ?case
  proof (cases i)
    case 0
    then show ?thesis by auto
  next
    case (Suc j)
    then have j: "j < length rs" using Cons.prems by simp
    show ?thesis
      using Cons.IH [OF j, of "tl results"] Cons.IH [OF j, of results] Suc by auto
  qed
qed

lemma loadRelation_no_keys:
  assumes rel: "map_of (relations (instances s ! this)) name = Some rel"
    and none: "lookup_keys (localKey rel) records = []"
  shows "fst (loadRelation env this records name s) = Inr records"
  using none by (simp add: loadRelation_unfold [OF rel])

lemma loadRelation_null_keys:
  assumes rel: "map_of (relations (instances s ! this)) name = Some rel"
    and some: "lookup_keys (localKey rel) records \<noteq> []"
  shows "\<exists>rs. fst (loadRelation env this records name s) = Inr rs
           \<and> length rs = length records
           \<and> (\<forall>i < length records. \<not> not_nullish (field (records ! i) (localKey rel)) \<longrightarrow>
                 rs ! i = set_field name (case rtype rel of Many \<Rightarrow> Arr [] | One \<Rightarrow> Null)
                            (records ! i))"
proof -
  let ?results = "fst (fst (dl_loadMany env (loader_for (instances s ! this) name rel)
                  (lookup_keys (localKey rel) records) (with_loader this name rel s)))"
  let ?rs = "write_back (localKey rel) name (rtype rel) records ?results"
  have e: "fst (loadRelation env this records name s) = Inr ?rs"
    using some by (simp add: loadRelation_unfold [OF rel])
  have n: "\<forall>i < length records. \<not> not_nullish (field (records ! i) (localKey rel)) \<longrightarrow>
        ?rs ! i = set_field name (case rtype rel of Many \<Rightarrow> Arr [] | One \<Rightarrow> Null) (records ! i)"
  proof (intro allI impI)
    fix i assume i: "i < length records"
      and z: "\<not> not_nullish (field (records ! i) (localKey rel))"
    from write_back_nth [OF i, of "localKey rel" name "rtype rel" ?results]
    show "?rs ! i = set_field name (case rtype rel of Many \<Rightarrow> Arr [] | One \<Rightarrow> Null) (records ! i)"
      using z by auto
  qed
  show ?thesis using e n by (simp add: write_back_length)
qed

subsection \<open>The driver calls of a resolution\<close>

lemma loadRelation_core:
  assumes rel: "map_of (relations (instances s ! this)) name = Some rel"
  shows "isConnected (instances (snd (loadRelation env this records name s)) ! t)
           = isConnected (instances s ! t)"
    and "driver (instances (snd (loadRelation env this records name s)) ! t)
           = driver (instances s ! t)"
  by (simp_all add: loadRelation_unfold [OF rel] with_loader_core set_loader_core
      dl_loadMany_instances)

lemma dl_loadMany_trace:
  "trace (snd (dl_loadMany env ld keys s)) =
     (if (\<exists>k \<in> set keys. dl_lookup (cache ld) k = None) \<and> isConnected (instances s ! l_target ld)
      then trace s @ [DGet (driver (instances s ! l_target ld)) []]
      else trace s)"
proof -
  have "set (snd (dl_load (cache ld) [] keys)) = {k \<in> set keys. dl_lookup (cache ld) k = None}"
    by (simp add: dl_load_batch)
  then have e: "(snd (dl_load (cache ld) [] keys) = []) = (\<not> (\<exists>k \<in> set keys. dl_lookup (cache ld) k = None))"
    by (metis (mono_tags, lifting) empty_Collect_eq set_empty)
  show ?thesis
    by (simp add: dl_loadMany_state batch_fn_trace e)
qed

lemma loadRelation_trace:
  assumes rel: "map_of (relations (instances s ! this)) name = Some rel"
  shows "trace (snd (loadRelation env this records name s)) =
     (if (\<exists>k \<in> set (lookup_keys (localKey rel) records).
            dl_lookup (cache (loader_for (instances s ! this) name rel)) k = None)
         \<and> isConnected (instances s ! l_target (loader_for (instances s ! this) name rel))
      then trace s @ [DGet (driver (instances s ! l_target (loader_for (instances s ! this) name rel))) []]
      else trace s)"
proof (cases "lookup_keys (localKey rel) records = []")
  case True
  then show ?thesis by (simp add: loadRelation_unfold [OF rel] with_loader_frame)
next
  case False
  then show ?thesis
    by (simp add: loadRelation_unfold [OF rel] set_loader_frame dl_loadMany_trace
        with_loader_core with_loader_frame)
qed

lemma loader_for_current:
  "\<forall>ld. map_of (loaders inst) name = Some ld \<longrightarrow> l_target ld = target rel \<Longrightarrow>
     l_target (loader_for inst name rel) = target rel"
  by (cases "map_of (loaders inst) name") (simp_all add: loader_for_def)

lemma clearCache_frame:
  "fetches (clearCache this s) = fetches s"
  "length (instances (clearCache this s)) = length (instances s)"
  by (simp_all add: clearCache_def)

lemma clearCache_instance:
  "this < length (instances s) \<Longrightarrow>
     relations (instances (clearCache this s) ! this) = relations (instances s ! this)
     \<and> loaders (instances (clearCache this s) ! this) = []"
  by (simp add: clearCache_def)

lemma clearCache_core:
  "isConnected (instances (clearCache this s) ! t) = isConnected (instances s ! t)"
  "driver (instances (clearCache this s) ! t) = driver (instances s ! t)"
  "trace (clearCache this s) = trace s"
proof -
  have "instances (clearCache this s) ! t = instances s ! t
      \<or> instances (clearCache this s) ! t = (instances s ! t)\<lparr>loaders := []\<rparr>"
  proof (cases "this < length (instances s)")
    case True
    then show ?thesis by (cases "t = this") (simp_all add: clearCache_def)
  next
    case False
    then show ?thesis by (simp add: clearCache_def list_update_beyond)
  qed
  then show "isConnected (instances (clearCache this s) ! t) = isConnected (instances s ! t)"
    "driver (instances (clearCache this s) ! t) = driver (instances s ! t)"
    by auto
  show "trace (clearCache this s) = trace s" by (simp add: clearCache_def)
qed

subsection \<open>The claims about the resolver\<close>

text \<open>
  Claim C3 does not hold of the code when every record has a null local key. For one post
  whose \<^verbatim>\<open>authorId\<close> is \<^verbatim>\<open>null\<close> and the relation \<^verbatim>\<open>author\<close> of cardinality \<^verbatim>\<open>one\<close>,
  \<^verbatim>\<open>loadRelation\<close> returns at \<^verbatim>\<open>if (keys.length === 0) return\<close>, before the loop that writes
  the results: the post is left as it was, without a field \<^verbatim>\<open>author\<close>, where the claim says
  that the field is \<^verbatim>\<open>null\<close>. The same holds of every list of records without a key
  (\<open>loadRelation_no_keys\<close>). When some record has a key, the loop runs and gives the
  records without one the empty result (\<open>loadRelation_null_keys\<close>).
\<close>

theorem loadRelation_all_null_unannotated:
  "fst (loadRelation demo_env 0 [[(''id'', Num 11), (''authorId'', Null)]] ''author'' blog)
     = Inr [[(''id'', Num 11), (''authorId'', Null)]]
   \<and> fst (loadRelation demo_env 0 [[(''id'', Num 11), (''authorId'', Null)]] ''author'' blog)
     \<noteq> Inr [set_field ''author'' Null [(''id'', Num 11), (''authorId'', Null)]]
   \<and> field [(''id'', Num 11), (''authorId'', Null)] ''author'' = Undefined
   \<and> isConnected (instances blog ! 0) \<and> isConnected (instances blog ! 1)
   \<and> map_of (relations (instances blog ! 0)) ''author''
       = Some \<lparr>target = 1, localKey = ''authorId'', foreignKey = ''id'', rtype = One\<rparr>"
  by (simp add: loadRelation_def blog_def posts_def authors_def ret_def field_def Let_def
      set_field_def)

lemma loadRelation_fetches_all:
  assumes rel: "map_of (relations (instances s ! this)) name = Some rel"
    and some: "lookup_keys (localKey rel) records \<noteq> []"
    and fresh: "\<forall>k \<in> set (lookup_keys (localKey rel) records).
        dl_lookup (cache (loader_for (instances s ! this) name rel)) k = None"
  shows "\<exists>batch. fetches (snd (loadRelation env this records name s))
            = fetches s @ [(l_target (loader_for (instances s ! this) name rel), batch)]
         \<and> set batch = set (lookup_keys (localKey rel) records)"
proof -
  obtain k where "k \<in> set (lookup_keys (localKey rel) records)"
    using some by (cases "lookup_keys (localKey rel) records") auto
  then have un: "\<exists>k \<in> set (lookup_keys (localKey rel) records).
        dl_lookup (cache (loader_for (instances s ! this) name rel)) k = None"
    using fresh by blast
  have "{k \<in> set (lookup_keys (localKey rel) records).
          dl_lookup (cache (loader_for (instances s ! this) name rel)) k = None}
        = set (lookup_keys (localKey rel) records)"
    using fresh by blast
  then show ?thesis using loadRelation_fetches_one [OF rel un, of env] by simp
qed

text \<open>
  Claim C4, as amended. When the relation is declared, the loader stored for it, if there is
  one, was made for the relation's present target, at least one of the records has a local key
  that is not null, and none of the local keys is in the cache of the relation's loader,
  \<^verbatim>\<open>loadRelation\<close> calls the batch function exactly once, whatever the number of records and
  of distinct keys: the list of fetches grows by one entry, a fetch from the relation's target
  for the keys of the records. On the driver of a connected target this is one \<^verbatim>\<open>get({})\<close>;
  a target that is not connected refuses the fetch before its driver is reached.
\<close>

theorem loadRelation_one_fetch:
  assumes rel: "map_of (relations (instances s ! this)) name = Some rel"
    and cur: "\<forall>ld. map_of (loaders (instances s ! this)) name = Some ld \<longrightarrow> l_target ld = target rel"
    and some: "lookup_keys (localKey rel) records \<noteq> []"
    and fresh: "\<forall>k \<in> set (lookup_keys (localKey rel) records).
        dl_lookup (cache (loader_for (instances s ! this) name rel)) k = None"
  shows "(\<exists>batch. fetches (snd (loadRelation env this records name s))
            = fetches s @ [(target rel, batch)]
         \<and> set batch = set (lookup_keys (localKey rel) records))
    \<and> trace (snd (loadRelation env this records name s))
        = (if isConnected (instances s ! target rel)
           then trace s @ [DGet (driver (instances s ! target rel)) []]
           else trace s)"
proof -
  have tg: "l_target (loader_for (instances s ! this) name rel) = target rel"
    using cur by (rule loader_for_current)
  obtain k where "k \<in> set (lookup_keys (localKey rel) records)"
    using some by (cases "lookup_keys (localKey rel) records") auto
  then have un: "\<exists>k \<in> set (lookup_keys (localKey rel) records).
        dl_lookup (cache (loader_for (instances s ! this) name rel)) k = None"
    using fresh by blast
  have t: "trace (snd (loadRelation env this records name s))
        = (if isConnected (instances s ! target rel)
           then trace s @ [DGet (driver (instances s ! target rel)) []]
           else trace s)"
    using un by (simp add: loadRelation_trace [OF rel] tg)
  show ?thesis using loadRelation_fetches_all [OF rel some fresh, of env] t by (simp add: tg)
qed

text \<open>
  An instance of C4 as amended: five posts, one of them without an author, and two distinct
  keys. The one fetch is one \<^verbatim>\<open>get({})\<close> on the driver of the authors.
\<close>

theorem loadRelation_one_fetch_witness:
  "(\<exists>batch. fetches (snd (loadRelation demo_env 0
        [[(''id'', Num 10), (''authorId'', Num 1)], [(''id'', Num 11), (''authorId'', Null)],
         [(''id'', Num 12), (''authorId'', Num 1)], [(''id'', Num 13), (''authorId'', Num 3)],
         [(''id'', Num 14), (''authorId'', Num 3)]] ''author'' blog))
      = [(1, batch)] \<and> set batch = {Num 1, Num 3})
   \<and> trace (snd (loadRelation demo_env 0
        [[(''id'', Num 10), (''authorId'', Num 1)], [(''id'', Num 11), (''authorId'', Null)],
         [(''id'', Num 12), (''authorId'', Num 1)], [(''id'', Num 13), (''authorId'', Num 3)],
         [(''id'', Num 14), (''authorId'', Num 3)]] ''author'' blog))
      = [DGet 1 []]"
proof -
  let ?rel = "\<lparr>target = 1, localKey = ''authorId'', foreignKey = ''id'', rtype = One\<rparr>"
  let ?recs = "[[(''id'', Num 10), (''authorId'', Num 1)], [(''id'', Num 11), (''authorId'', Null)],
         [(''id'', Num 12), (''authorId'', Num 1)], [(''id'', Num 13), (''authorId'', Num 3)],
         [(''id'', Num 14), (''authorId'', Num 3)]]"
  have h1: "map_of (relations (instances blog ! 0)) ''author'' = Some ?rel"
    by (simp add: blog_def posts_def)
  have hc: "\<forall>ld. map_of (loaders (instances blog ! 0)) ''author'' = Some ld
      \<longrightarrow> l_target ld = target ?rel"
    by (simp add: blog_def posts_def)
  have k: "lookup_keys (localKey ?rel) ?recs = [Num 1, Num 1, Num 3, Num 3]"
    by (simp add: lookup_keys_def field_def)
  have h2: "lookup_keys (localKey ?rel) ?recs \<noteq> []" unfolding k by simp
  have l: "loader_for (instances blog ! 0) ''author'' ?rel
      = \<lparr>l_target = 1, l_foreignKey = ''id'', l_type = One, cache = []\<rparr>"
    by (simp add: loader_for_def blog_def posts_def)
  have h3: "\<forall>k \<in> set (lookup_keys (localKey ?rel) ?recs).
        dl_lookup (cache (loader_for (instances blog ! 0) ''author'' ?rel)) k = None"
    unfolding l by simp
  have f: "fetches blog = []" by (simp add: blog_def)
  note t = loadRelation_one_fetch [OF h1 hc h2 h3, of demo_env]
  from t have "\<exists>batch. fetches (snd (loadRelation demo_env 0 ?recs ''author'' blog))
            = fetches blog @ [(target ?rel, batch)]
         \<and> set batch = set (lookup_keys (localKey ?rel) ?recs)"
    by (rule conjunct1)
  then have a: "\<exists>batch. fetches (snd (loadRelation demo_env 0 ?recs ''author'' blog))
      = [(1, batch)] \<and> set batch = {Num 1, Num 3}"
    unfolding k f by simp
  from t have b: "trace (snd (loadRelation demo_env 0 ?recs ''author'' blog))
        = (if isConnected (instances blog ! target ?rel)
           then trace blog @ [DGet (driver (instances blog ! target ?rel)) []]
           else trace blog)"
    by (rule conjunct2)
  have b': "trace (snd (loadRelation demo_env 0 ?recs ''author'' blog)) = [DGet 1 []]"
    unfolding b by (simp add: blog_def authors_def)
  show ?thesis by (rule conjI [OF a b'])
qed

text \<open>
  C4 as stated fails: for a batch of two records whose local keys are \<^verbatim>\<open>null\<close> and absent,
  with the relation declared and nothing cached, no fetch is issued.
\<close>

theorem loadRelation_no_fetch_counterexample:
  "map_of (relations (instances blog ! 0)) ''author''
      = Some \<lparr>target = 1, localKey = ''authorId'', foreignKey = ''id'', rtype = One\<rparr>
   \<and> loaders (instances blog ! 0) = []
   \<and> fetches blog = []
   \<and> fetches (snd (loadRelation demo_env 0
        [[(''id'', Num 11), (''authorId'', Null)], [(''id'', Num 12)]] ''author'' blog)) = []"
  by (simp add: loadRelation_def blog_def posts_def ret_def field_def set_loader_def Let_def)

text \<open>
  Why the loader has to be the one of the present target: \<^verbatim>\<open>relation\<close> declared again under
  the same name leaves the stored loader alone, and the next resolution fetches from the
  target the loader was made for (here the authors, instance 1), not from the target the
  relation now names (instance 2).
\<close>

lemma loadRelation_stale_loader_example:
  "map_of (relations (instances blog_redeclared ! 0)) ''author''
      = Some \<lparr>target = 2, localKey = ''authorId'', foreignKey = ''id'', rtype = One\<rparr>
   \<and> fetches blog_redeclared = [(1, [Num 1, Num 2])]
   \<and> trace blog_redeclared = [DGet 1 []]
   \<and> fetches (snd (loadRelation demo_env 0 [[(''id'', Num 21), (''authorId'', Num 3)]] ''author''
        blog_redeclared)) = [(1, [Num 1, Num 2]), (1, [Num 3])]
   \<and> trace (snd (loadRelation demo_env 0 [[(''id'', Num 21), (''authorId'', Num 3)]] ''author''
        blog_redeclared)) = [DGet 1 [], DGet 1 []]"
  by (simp add: blog_redeclared_def relation_def archive_def blog1_def demo_env_def
      loadRelation_def blog_def
      posts_def authors_def ret_def throw_def andThen_def field_def set_loader_def Let_def
      lookup_keys_def first_posts_def next_posts_def dl_loadMany_def batch_fn_def get_def
      ensureConnected_def drv_get_def this_driver_def slot_value_def sameValueZero_def
      split_def batch_value_def)

text \<open>
  Claim C5, as amended. The relation is resolved for \<open>recs1\<close>, with a loader made for the
  relation's present target and a fetch that succeeds (the target is connected and its driver
  answers), and then for \<open>recs2\<close>. The second resolution issues at most one fetch, one
  \<^verbatim>\<open>get({})\<close> on the driver of the relation's target, and the keys of that fetch are keys of
  \<open>recs2\<close> that are not among the keys of \<open>recs1\<close>; when every key of \<open>recs2\<close> is a key of
  \<open>recs1\<close> it issues none and calls no driver. After \<^verbatim>\<open>clearCache\<close>, resolving \<open>recs2\<close> again,
  when at least one of its records has a local key that is not null, issues one fetch from the
  relation's target, one \<^verbatim>\<open>get({})\<close> on its driver, for all the keys of \<open>recs2\<close>.
\<close>

theorem loadRelation_cached_keys:
  assumes lt: "this < length (instances s)"
    and rel: "map_of (relations (instances s ! this)) name = Some rel"
    and cur: "\<forall>ld. map_of (loaders (instances s ! this)) name = Some ld \<longrightarrow> l_target ld = target rel"
    and ok: "isConnected (instances s ! target rel)"
    and drv: "fst (d_get env (driver (instances s ! target rel)) [] (backend s)) = Inr rows"
    and s1: "s1 = snd (loadRelation env this recs1 name s)"
    and s2: "s2 = snd (loadRelation env this recs2 name s1)"
    and s3: "s3 = snd (loadRelation env this recs2 name (clearCache this s2))"
  shows "((fetches s2 = fetches s1 \<and> trace s2 = trace s1)
          \<or> (\<exists>batch. fetches s2 = fetches s1 @ [(target rel, batch)]
               \<and> trace s2 = trace s1 @ [DGet (driver (instances s ! target rel)) []]
               \<and> (\<forall>k \<in> set batch. k \<in> set (lookup_keys (localKey rel) recs2)
                     \<and> (\<forall>k1 \<in> set (lookup_keys (localKey rel) recs1). \<not> sameValueZero k1 k))))
    \<and> ((\<forall>k \<in> set (lookup_keys (localKey rel) recs2).
           \<exists>k1 \<in> set (lookup_keys (localKey rel) recs1). sameValueZero k1 k)
         \<longrightarrow> fetches s2 = fetches s1 \<and> trace s2 = trace s1)
    \<and> (lookup_keys (localKey rel) recs2 \<noteq> []
         \<longrightarrow> (\<exists>batch. fetches s3 = fetches s2 @ [(target rel, batch)]
                \<and> set batch = set (lookup_keys (localKey rel) recs2))
             \<and> trace s3 = trace s2 @ [DGet (driver (instances s ! target rel)) []])"
proof -
  let ?old = "loader_for (instances s ! this) name rel"
  let ?keys1 = "lookup_keys (localKey rel) recs1"
  let ?keys2 = "lookup_keys (localKey rel) recs2"
  let ?get = "DGet (driver (instances s ! target rel)) []"
  have tg0: "l_target ?old = target rel"
    using cur by (rule loader_for_current)
  obtain ld where ld: "map_of (loaders (instances s1 ! this)) name = Some ld"
    and tg: "l_target ld = target rel"
    and filled: "\<forall>k \<in> set ?keys1. sameValueZero k k \<longrightarrow> dl_lookup (cache ld) k \<noteq> None"
    using loadRelation_loader [OF lt rel, of env recs1 rows] ok drv unfolding s1 tg0 by blast
  have rel1: "map_of (relations (instances s1 ! this)) name = Some rel"
    unfolding s1 using rel by (simp add: loadRelation_relations [OF rel])
  have lf1: "loader_for (instances s1 ! this) name rel = ld"
    using ld by (simp add: loader_for_def)
  have len1: "length (instances s1) = length (instances s)"
    unfolding s1 by (rule loadRelation_length [OF rel])
  have ok1: "isConnected (instances s1 ! target rel)"
    unfolding s1 using ok by (simp add: loadRelation_core [OF rel])
  have dr1: "driver (instances s1 ! target rel) = driver (instances s ! target rel)"
    unfolding s1 by (simp add: loadRelation_core [OF rel])
  have known: "dl_lookup (cache ld) k \<noteq> None" if "k1 \<in> set ?keys1" "sameValueZero k1 k" for k k1
  proof -
    have "k1 = k" "sameValueZero k k" using that(2) by (auto simp add: sameValueZero_def)
    then show ?thesis using filled that(1) by blast
  qed
  have none: "fetches s2 = fetches s1 \<and> trace s2 = trace s1"
    if cached: "\<forall>k \<in> set ?keys2. dl_lookup (cache ld) k \<noteq> None"
  proof -
    have c: "\<forall>k \<in> set ?keys2. dl_lookup (cache (loader_for (instances s1 ! this) name rel)) k \<noteq> None"
      unfolding lf1 using cached by auto
    have f: "fetches s2 = fetches s1"
      unfolding s2 using c by (rule loadRelation_fetches_none [OF rel1])
    have t: "trace s2 = trace s1"
      unfolding s2 using c by (simp add: loadRelation_trace [OF rel1])
    show ?thesis using f t by simp
  qed
  have a: "(fetches s2 = fetches s1 \<and> trace s2 = trace s1)
          \<or> (\<exists>batch. fetches s2 = fetches s1 @ [(target rel, batch)]
               \<and> trace s2 = trace s1 @ [?get]
               \<and> (\<forall>k \<in> set batch. k \<in> set ?keys2
                     \<and> (\<forall>k1 \<in> set ?keys1. \<not> sameValueZero k1 k)))"
  proof (cases "\<exists>k \<in> set ?keys2. dl_lookup (cache ld) k = None")
    case False
    then have "\<forall>k \<in> set ?keys2. dl_lookup (cache ld) k \<noteq> None" by auto
    then show ?thesis using none by simp
  next
    case True
    then have un: "\<exists>k \<in> set ?keys2. dl_lookup (cache (loader_for (instances s1 ! this) name rel)) k = None"
      unfolding lf1 by auto
    from loadRelation_fetches_one [OF rel1 un, of env]
    obtain batch where b: "fetches s2 = fetches s1 @ [(target rel, batch)]"
      "set batch = {k \<in> set ?keys2. dl_lookup (cache ld) k = None}"
      unfolding s2 lf1 tg by blast
    have t: "trace s2 = trace s1 @ [?get]"
      unfolding s2 using un ok1 by (simp add: loadRelation_trace [OF rel1] lf1 tg dr1)
    have "\<forall>k \<in> set batch. k \<in> set ?keys2 \<and> (\<forall>k1 \<in> set ?keys1. \<not> sameValueZero k1 k)"
      using b(2) known by blast
    then show ?thesis using b(1) t by blast
  qed
  have b: "fetches s2 = fetches s1 \<and> trace s2 = trace s1"
    if all: "\<forall>k \<in> set ?keys2. \<exists>k1 \<in> set ?keys1. sameValueZero k1 k"
  proof -
    have "\<forall>k \<in> set ?keys2. dl_lookup (cache ld) k \<noteq> None"
      using all known by auto
    then show ?thesis by (rule none)
  qed
  have c: "(\<exists>batch. fetches s3 = fetches s2 @ [(target rel, batch)] \<and> set batch = set ?keys2)
      \<and> trace s3 = trace s2 @ [?get]"
    if ne: "?keys2 \<noteq> []"
  proof -
    have rel2: "map_of (relations (instances s2 ! this)) name = Some rel"
      unfolding s2 using rel1 by (simp add: loadRelation_relations [OF rel1])
    have len2: "this < length (instances s2)"
      unfolding s2 using lt len1 by (simp add: loadRelation_length [OF rel1])
    have ok2: "isConnected (instances s2 ! target rel)"
      unfolding s2 using ok1 by (simp add: loadRelation_core [OF rel1])
    have dr2: "driver (instances s2 ! target rel) = driver (instances s ! target rel)"
      unfolding s2 using dr1 by (simp add: loadRelation_core [OF rel1])
    let ?c = "clearCache this s2"
    have relc: "map_of (relations (instances ?c ! this)) name = Some rel"
      using clearCache_instance [OF len2] rel2 by simp
    have lfc: "loader_for (instances ?c ! this) name rel
        = \<lparr>l_target = target rel, l_foreignKey = foreignKey rel, l_type = rtype rel, cache = []\<rparr>"
      using clearCache_instance [OF len2] by (simp add: loader_for_def)
    have fresh: "\<forall>k \<in> set (lookup_keys (localKey rel) recs2).
        dl_lookup (cache (loader_for (instances ?c ! this) name rel)) k = None"
      unfolding lfc by simp
    obtain k where "k \<in> set ?keys2" using ne by (cases ?keys2) auto
    then have un: "\<exists>k \<in> set ?keys2.
        dl_lookup (cache (loader_for (instances ?c ! this) name rel)) k = None"
      using fresh by blast
    have f: "\<exists>batch. fetches s3 = fetches s2 @ [(target rel, batch)] \<and> set batch = set ?keys2"
      using loadRelation_fetches_all [OF relc ne fresh, of env]
      unfolding s3 lfc by (simp add: clearCache_frame)
    have t: "trace s3 = trace s2 @ [?get]"
      unfolding s3 using un ok2
      by (simp add: loadRelation_trace [OF relc] lfc clearCache_core dr2)
    show ?thesis using f t by simp
  qed
  show ?thesis using a b c by blast
qed

text \<open>
  An instance of C5 as amended: the authors 1 and 2 are resolved, then the authors 2 and 3,
  then the cache is cleared and the authors 2 and 3 are resolved again.
\<close>

theorem loadRelation_cached_keys_witness:
  "((fetches blog2 = fetches blog1 \<and> trace blog2 = trace blog1)
      \<or> (\<exists>batch. fetches blog2 = fetches blog1 @ [(1, batch)]
            \<and> trace blog2 = trace blog1 @ [DGet 1 []] \<and> Num 2 \<notin> set batch))
   \<and> (\<exists>batch. fetches blog3 = fetches blog2 @ [(1, batch)] \<and> set batch = {Num 2, Num 3})
   \<and> trace blog3 = trace blog2 @ [DGet 1 []]"
proof -
  let ?rel = "\<lparr>target = 1, localKey = ''authorId'', foreignKey = ''id'', rtype = One\<rparr>"
  have h1: "0 < length (instances blog)" by (simp add: blog_def)
  have h2: "map_of (relations (instances blog ! 0)) ''author'' = Some ?rel"
    by (simp add: blog_def posts_def)
  have hc: "\<forall>ld. map_of (loaders (instances blog ! 0)) ''author'' = Some ld
      \<longrightarrow> l_target ld = target ?rel"
    by (simp add: blog_def posts_def)
  have h3: "isConnected (instances blog ! target ?rel)"
    by (simp add: blog_def authors_def)
  have h4: "fst (d_get demo_env (driver (instances blog ! target ?rel)) [] (backend blog))
      = Inr (backend blog)"
    by (simp add: demo_env_def)
  have d: "driver (instances blog ! Suc 0) = 1" by (simp add: blog_def authors_def)
  have k1: "lookup_keys (localKey ?rel) first_posts = [Num 1, Num 2]"
    by (simp add: lookup_keys_def field_def first_posts_def)
  have k2: "lookup_keys (localKey ?rel) next_posts = [Num 2, Num 3]"
    by (simp add: lookup_keys_def field_def next_posts_def)
  have sv: "sameValueZero (Num 2) (Num 2)" by (simp add: sameValueZero_def)
  note t = loadRelation_cached_keys [OF h1 h2 hc h3 h4 blog1_def blog2_def blog3_def]
  have a: "(fetches blog2 = fetches blog1 \<and> trace blog2 = trace blog1)
      \<or> (\<exists>batch. fetches blog2 = fetches blog1 @ [(1, batch)]
            \<and> trace blog2 = trace blog1 @ [DGet 1 []]
            \<and> (\<forall>k \<in> set batch. k \<in> set [Num 2, Num 3]
                  \<and> (\<forall>k1 \<in> set [Num 1, Num 2]. \<not> sameValueZero k1 k)))"
    using t unfolding k1 k2 by (simp add: d)
  have c: "(\<exists>batch. fetches blog3 = fetches blog2 @ [(1, batch)] \<and> set batch = {Num 2, Num 3})
      \<and> trace blog3 = trace blog2 @ [DGet 1 []]"
    using t unfolding k1 k2 by (simp add: d)
  have a': "(fetches blog2 = fetches blog1 \<and> trace blog2 = trace blog1)
      \<or> (\<exists>batch. fetches blog2 = fetches blog1 @ [(1, batch)]
            \<and> trace blog2 = trace blog1 @ [DGet 1 []] \<and> Num 2 \<notin> set batch)"
  proof (rule disjE [OF a])
    assume "fetches blog2 = fetches blog1 \<and> trace blog2 = trace blog1"
    then show ?thesis by simp
  next
    assume "\<exists>batch. fetches blog2 = fetches blog1 @ [(1, batch)]
            \<and> trace blog2 = trace blog1 @ [DGet 1 []]
            \<and> (\<forall>k \<in> set batch. k \<in> set [Num 2, Num 3]
                  \<and> (\<forall>k1 \<in> set [Num 1, Num 2]. \<not> sameValueZero k1 k))"
    then obtain batch where b: "fetches blog2 = fetches blog1 @ [(1, batch)]"
      "trace blog2 = trace blog1 @ [DGet 1 []]"
      "\<forall>k \<in> set batch. \<forall>k1 \<in> set [Num 1, Num 2]. \<not> sameValueZero k1 k" by blast
    have "Num 2 \<notin> set batch"
    proof
      assume "Num 2 \<in> set batch"
      then have "\<not> sameValueZero (Num 2) (Num 2)" using b(3) by simp
      then show False using sv by simp
    qed
    then show ?thesis using b(1) b(2) by blast
  qed
  show ?thesis by (rule conjI [OF a' c])
qed

text \<open>
  C5 as stated fails when the fetch of the first resolution fails: nothing is cached then. The
  driver of the authors refuses \<^verbatim>\<open>get\<close>; the first resolution, for the authors 1 and 2,
  fetches once, and the second, for the authors 2 and 3, fetches the author 2 again.
\<close>

theorem loadRelation_refetch_counterexample:
  "map_of (relations (instances blog ! 0)) ''author''
      = Some \<lparr>target = 1, localKey = ''authorId'', foreignKey = ''id'', rtype = One\<rparr>
   \<and> isConnected (instances blog ! 0) \<and> isConnected (instances blog ! 1)
   \<and> lookup_keys ''authorId'' first_posts = [Num 1, Num 2]
   \<and> lookup_keys ''authorId'' next_posts = [Num 2, Num 3]
   \<and> fetches failed1 = [(1, [Num 1, Num 2])]
   \<and> trace failed1 = [DGet 1 []]
   \<and> fetches failed2 = [(1, [Num 1, Num 2]), (1, [Num 2, Num 3])]
   \<and> trace failed2 = [DGet 1 [], DGet 1 []]"
  by (simp add: failed1_def failed2_def failing_env_def demo_env_def loadRelation_def blog_def
      posts_def authors_def ret_def throw_def andThen_def field_def set_loader_def Let_def
      lookup_keys_def first_posts_def next_posts_def dl_loadMany_def batch_fn_def get_def
      ensureConnected_def drv_get_def this_driver_def slot_value_def sameValueZero_def
      split_def)

section \<open>Operations on an instance that is not connected\<close>

lemma guard_fails:
  "\<not> isConnected (instances s ! this) \<Longrightarrow>
     andThen (ensureConnected this) f s = (Inl NotConnected, s)"
  by (simp add: andThen_def ensureConnected_def throw_def)

lemma returning_fails: "m s = (Inl e, s') \<Longrightarrow> returning f m s = (Inl e, s')"
  by (simp add: returning_def andThen_def)

text \<open>
  Claim C8. On an instance that is not marked connected, every operation on the data, the two
  that populate relationships among them, fails with the error of \<^verbatim>\<open>ensureConnected\<close> and
  leaves the process as it was: no operation has been invoked on a driver (the trace is the
  same), the backend is the same, and the instance is still not marked connected.
\<close>

theorem not_connected_fails:
  assumes "\<not> isConnected (instances s ! this)"
  shows "perform env this opn s = (Inl NotConnected, s)"
proof -
  note g = guard_fails [OF assms]
  show ?thesis
    by (cases opn)
       (simp_all add: returning_fails g insert_rec_def insertMany_def get_def getOne_def
          getAll_def getMany_def update_def updateOne_def save_def remove_def removeOne_def
          clear_def has_def count_def countBy_def getById_def updateById_def removeById_def
          hasId_def getBy_def hasBy_def sort_recs_def select_def unique_def group_recs_def
          paginate_def sum_field_def increment_def decrement_def rewrite_each_def push_def
          pull_def shift_def unshift_def pop_def unset_def rename_def first_def last_rec_def
          isEmpty_def random_def getWith_def getOneWith_def)
qed

text \<open>
  An instance of C8: \<^verbatim>\<open>insert\<close> and \<^verbatim>\<open>getWith\<close> on the posts before \<^verbatim>\<open>connect()\<close>.
\<close>

theorem not_connected_fails_witness:
  "\<not> isConnected (instances (blog\<lparr>instances := [posts\<lparr>isConnected := False\<rparr>, authors]\<rparr>) ! 0)
   \<and> perform demo_env 0 (Insert [(''title'', Str ''x'')])
         (blog\<lparr>instances := [posts\<lparr>isConnected := False\<rparr>, authors]\<rparr>)
       = (Inl NotConnected, blog\<lparr>instances := [posts\<lparr>isConnected := False\<rparr>, authors]\<rparr>)
   \<and> perform demo_env 0 (GetWith [] [''author''])
         (blog\<lparr>instances := [posts\<lparr>isConnected := False\<rparr>, authors]\<rparr>)
       = (Inl NotConnected, blog\<lparr>instances := [posts\<lparr>isConnected := False\<rparr>, authors]\<rparr>)"
proof -
  have h: "\<not> isConnected (instances (blog\<lparr>instances := [posts\<lparr>isConnected := False\<rparr>, authors]\<rparr>) ! 0)"
    by simp
  show ?thesis
    using not_connected_fails [OF h, of demo_env "Insert [(''title'', Str ''x'')]"]
      not_connected_fails [OF h, of demo_env "GetWith [] [''author'']"] h
    by simp
qed

end
